theory Spec2Isabelle
  imports Main "HOL-Library.Sublist"
begin

section \<open>Python strings and the regular expressions of the script\<close>

text \<open>
  The program is \<^verbatim>\<open>scripts/extract-ministry-from-ichiran.py\<close>. A Python \<^verbatim>\<open>str\<close> is a
  sequence of Unicode code points, so a string is modelled as a list of natural numbers;
  a character is written as its code point (\<open>0x5C40\<close> is U+5C40, the kanji "kyoku").
  Every regular expression of the script is modelled by a function that computes what
  \<^verbatim>\<open>re.match\<close>, \<^verbatim>\<open>re.search\<close> or \<^verbatim>\<open>re.sub\<close> computes for that pattern, named after the
  place where the script uses it.
\<close>

type_synonym ustr = "nat list"

datatype error = TypeError | KeyError | IndexError

text \<open>\<^verbatim>\<open>str.isspace\<close> of one character, which is also what \<^verbatim>\<open>\s\<close> matches in a \<^verbatim>\<open>str\<close> pattern.\<close>

definition isspace :: "nat \<Rightarrow> bool" where
  "isspace c \<longleftrightarrow>
     (9 \<le> c \<and> c \<le> 13) \<or> (28 \<le> c \<and> c \<le> 32) \<or> c = 0x85 \<or> c = 0xA0 \<or> c = 0x1680
     \<or> (0x2000 \<le> c \<and> c \<le> 0x200A) \<or> c = 0x2028 \<or> c = 0x2029 \<or> c = 0x202F
     \<or> c = 0x205F \<or> c = 0x3000"

text \<open>
  \<^verbatim>\<open>\d\<close> matches the characters of Unicode category Nd. They come in runs of ten; the list
  holds the digit zero of each run (Unicode 14, the table of CPython 3.11).
\<close>

definition decimal_zeros :: "nat list" where
  "decimal_zeros =
    [0x30, 0x660, 0x6F0, 0x7C0, 0x966, 0x9E6, 0xA66, 0xAE6, 0xB66, 0xBE6, 0xC66, 0xCE6,
     0xD66, 0xDE6, 0xE50, 0xED0, 0xF20, 0x1040, 0x1090, 0x17E0, 0x1810, 0x1946, 0x19D0,
     0x1A80, 0x1A90, 0x1B50, 0x1BB0, 0x1C40, 0x1C50, 0xA620, 0xA8D0, 0xA900, 0xA9D0,
     0xA9F0, 0xAA50, 0xABF0, 0xFF10, 0x104A0, 0x10D30, 0x11066, 0x110F0, 0x11136,
     0x111D0, 0x112F0, 0x11450, 0x114D0, 0x11650, 0x116C0, 0x11730, 0x118E0, 0x11950,
     0x11C50, 0x11D50, 0x11DA0, 0x16A60, 0x16AC0, 0x16B50, 0x1D7CE, 0x1D7D8, 0x1D7E2,
     0x1D7EC, 0x1D7F6, 0x1E140, 0x1E2F0, 0x1E950, 0x1FBF0]"

definition isdecimal :: "nat \<Rightarrow> bool" where
  "isdecimal c \<longleftrightarrow> list_ex (\<lambda>z. z \<le> c \<and> c < z + 10) decimal_zeros"

text \<open>\<^verbatim>\<open>s.strip()\<close>\<close>

definition strip :: "ustr \<Rightarrow> ustr" where
  "strip s = rev (dropWhile isspace (rev (dropWhile isspace s)))"

text \<open>\<^verbatim>\<open>s.split(sep)\<close> for a separator of one character: never an empty list.\<close>

fun split_on :: "nat \<Rightarrow> ustr \<Rightarrow> ustr list" where
  "split_on sep [] = [[]]"
| "split_on sep (c # cs) =
     (if c = sep then [] # split_on sep cs
      else (case split_on sep cs of [] \<Rightarrow> [[c]] | w # ws \<Rightarrow> (c # w) # ws))"

text \<open>
  A pattern's final \<^verbatim>\<open>$\<close> matches at the end of the string and also just before a
  newline that ends the string. No pattern of the script can consume that newline, so a
  pattern that ends in \<^verbatim>\<open>$\<close> is matched against the string without it.
\<close>

definition chomp :: "ustr \<Rightarrow> ustr" where
  "chomp s = (if s \<noteq> [] \<and> last s = 10 then butlast s else s)"

text \<open>\<^verbatim>\<open>re.search(r'[...]$', s)\<close> for a character class given as a list.\<close>

definition ends_in :: "nat list \<Rightarrow> ustr \<Rightarrow> bool" where
  "ends_in cls s \<longleftrightarrow> chomp s \<noteq> [] \<and> last (chomp s) \<in> set cls"

definition BUREAU_ENDINGS :: "nat list" where
  "BUREAU_ENDINGS = [0x5C40, 0x90E8, 0x9928, 0x9662, 0x5E81, 0x6240]"

definition SECTION_ENDINGS :: "nat list" where
  "SECTION_ENDINGS = [0x8AB2, 0x5BA4, 0x73ED, 0x4FC2, 0x5B98]"

definition ORG_ENDS :: "nat list" where
  "ORG_ENDS = [0x5C40, 0x90E8, 0x6240, 0x7F72, 0x53F0, 0x5E81, 0x4F1A, 0x6821, 0x533A]"

text \<open>
  The \<^verbatim>\<open>re.sub\<close> of lines 54, 56 and 116, which removes an opening parenthesis \<open>op\<close>, 1 to
  30 characters other than the closing parenthesis \<open>cl\<close>, and \<open>cl\<close>. At an
  \<open>op\<close> the pattern matches exactly when the next \<open>cl\<close> follows after 1 to 30 other
  characters; the match is removed and the scan goes on behind it.
\<close>

function remove_annotations :: "nat \<Rightarrow> nat \<Rightarrow> ustr \<Rightarrow> ustr" where
  "remove_annotations op cl [] = []"
| "remove_annotations op cl (c # cs) =
     (if c = op \<and> 1 \<le> length (takeWhile (\<lambda>x. x \<noteq> cl) cs)
         \<and> length (takeWhile (\<lambda>x. x \<noteq> cl) cs) \<le> 30
         \<and> dropWhile (\<lambda>x. x \<noteq> cl) cs \<noteq> []
      then remove_annotations op cl (tl (dropWhile (\<lambda>x. x \<noteq> cl) cs))
      else c # remove_annotations op cl cs)"
  by pat_completeness auto
termination
  by (relation "measure (\<lambda>(op, cl, s). length s)")
     (auto simp: less_Suc_eq_le intro: le_trans [OF diff_le_self length_dropWhile_le])

text \<open>Lines 49-57.\<close>

definition normalize_line :: "ustr \<Rightarrow> ustr" where
  "normalize_line line =
     strip (remove_annotations 0x28 0x29
       (remove_annotations 0xFF08 0xFF09 (filter (\<lambda>c. \<not> isspace c) line)))"

section \<open>The range and template expander (lines 60-99)\<close>

definition KANJI_NUM :: "ustr \<rightharpoonup> int" where
  "KANJI_NUM = map_of
     [([0x4E00], 1), ([0x4E8C], 2), ([0x4E09], 3), ([0x56DB], 4), ([0x4E94], 5),
      ([0x516D], 6), ([0x4E03], 7), ([0x516B], 8), ([0x4E5D], 9)]"

definition ARABIC_KANJI :: "int \<rightharpoonup> ustr" where
  "ARABIC_KANJI = map_of
     [(1, [0x4E00]), (2, [0x4E8C]), (3, [0x4E09]), (4, [0x56DB]), (5, [0x4E94]),
      (6, [0x516D]), (7, [0x4E03]), (8, [0x516B]), (9, [0x4E5D]), (10, [0x5341]),
      (11, [0x5341, 0x4E00]), (12, [0x5341, 0x4E8C])]"

text \<open>\<^verbatim>\<open>d.get(k, default)\<close>\<close>

definition dict_get :: "('k \<rightharpoonup> 'v) \<Rightarrow> 'k \<Rightarrow> 'v \<Rightarrow> 'v" where
  "dict_get d k dflt = (case d k of None \<Rightarrow> dflt | Some v \<Rightarrow> v)"

text \<open>
  Lines 64-77. \<^verbatim>\<open>s[0]\<close> raises IndexError on an empty string, and \<^verbatim>\<open>parts[1]\<close> does when
  the split gives one part.
\<close>

definition kanji_to_int :: "ustr \<Rightarrow> error + int" where
  "kanji_to_int s =
     (case KANJI_NUM s of
        Some n \<Rightarrow> Inr n
      | None \<Rightarrow>
          if s = [0x5341] then Inr 10
          else if prefix [0x5341] s then Inr (10 + dict_get KANJI_NUM (drop 1 s) 0)
          else if suffix [0x5341] s then
            (case s of [] \<Rightarrow> Inl IndexError
             | c # _ \<Rightarrow> Inr (dict_get KANJI_NUM [c] 1 * 10))
          else if 0x5341 \<in> set s then
            (case dropWhile (\<lambda>x. x \<noteq> 0x5341) s of
               [] \<Rightarrow> Inl IndexError
             | _ # after \<Rightarrow>
                 Inr (dict_get KANJI_NUM (takeWhile (\<lambda>x. x \<noteq> 0x5341) s) 1 * 10
                      + dict_get KANJI_NUM after 0))
          else Inr 0)"

definition kanji_digit :: "nat \<Rightarrow> bool" where
  "kanji_digit c \<longleftrightarrow>
     c \<in> set [0x4E00, 0x4E8C, 0x4E09, 0x56DB, 0x4E94, 0x516D, 0x4E03, 0x516B, 0x4E5D, 0x5341]"

text \<open>
  The pattern of line 82: U+7B2C, kanji numerals, U+FF5E U+7B2C, kanji numerals, end.
  The result is the two groups.
\<close>

definition range_match :: "ustr \<Rightarrow> (ustr \<times> ustr) option" where
  "range_match item =
     (case chomp item of
        [] \<Rightarrow> None
      | c # cs \<Rightarrow>
          if c \<noteq> 0x7B2C \<or> takeWhile kanji_digit cs = [] then None
          else (case dropWhile kanji_digit cs of
                  a # b # g2 \<Rightarrow>
                    if a = 0xFF5E \<and> b = 0x7B2C \<and> g2 \<noteq> [] \<and> list_all kanji_digit g2
                    then Some (takeWhile kanji_digit cs, g2) else None
                | _ \<Rightarrow> None))"

text \<open>
  The comprehension of line 86 over \<^verbatim>\<open>range(start, end + 1)\<close>: the subscript
  \<^verbatim>\<open>_ARABIC_KANJI[i]\<close> raises KeyError on a missing key, and is guarded by \<^verbatim>\<open>i in _ARABIC_KANJI\<close>.
\<close>

fun ordinals :: "int list \<Rightarrow> error + ustr list" where
  "ordinals [] = Inr []"
| "ordinals (i # js) =
     (if ARABIC_KANJI i \<noteq> None then
        (case ARABIC_KANJI i of
           None \<Rightarrow> Inl KeyError
         | Some k \<Rightarrow>
             (case ordinals js of Inl e \<Rightarrow> Inl e | Inr ks \<Rightarrow> Inr ((0x7B2C # k) # ks)))
      else ordinals js)"

definition expand_item :: "ustr \<Rightarrow> error + ustr list" where
  "expand_item item =
     (case range_match (strip item) of
        Some (g1, g2) \<Rightarrow>
          (case kanji_to_int g1 of
             Inl e \<Rightarrow> Inl e
           | Inr start \<Rightarrow>
               (case kanji_to_int g2 of
                  Inl e \<Rightarrow> Inl e
                | Inr end \<Rightarrow> ordinals [start..end]))
      | None \<Rightarrow> Inr (if strip item \<noteq> [] then [strip item] else []))"

fun expand_items :: "ustr list \<Rightarrow> error + ustr list" where
  "expand_items [] = Inr []"
| "expand_items (item # items) =
     (case expand_item item of
        Inl e \<Rightarrow> Inl e
      | Inr xs \<Rightarrow> (case expand_items items of Inl e \<Rightarrow> Inl e | Inr ys \<Rightarrow> Inr (xs @ ys)))"

definition expand_angle_content :: "ustr \<Rightarrow> error + ustr list" where
  "expand_angle_content text = expand_items (split_on 0x3001 text)"

section \<open>Counts, sections and block joining (lines 102-169)\<close>

definition count_digit :: "nat \<Rightarrow> bool" where
  "count_digit c \<longleftrightarrow> (0x30 \<le> c \<and> c \<le> 0x39) \<or> (0xFF10 \<le> c \<and> c \<le> 0xFF19)"

text \<open>
  \<^verbatim>\<open>re.search(r'[0-9...]+$', s)\<close> with both digit ranges: the leftmost match is the longest
  run of count digits at the end; \<open>None\<close> when there is none.
\<close>

definition count_search :: "ustr \<Rightarrow> ustr option" where
  "count_search s =
     (let d = rev (takeWhile count_digit (rev (chomp s)))
      in if d = [] then None else Some d)"

text \<open>Line 104: the same pattern removed by \<^verbatim>\<open>re.sub\<close>, then \<^verbatim>\<open>strip\<close>.\<close>

definition strip_count :: "ustr \<Rightarrow> ustr" where
  "strip_count s =
     strip (rev (dropWhile count_digit (rev (chomp s)))
            @ (if s \<noteq> [] \<and> last s = 10 then [10] else []))"

text \<open>Lines 107-119.\<close>

definition section_item :: "ustr \<Rightarrow> ustr" where
  "section_item item =
     strip (remove_annotations 0xFF08 0xFF09 (filter (\<lambda>c. \<not> isspace c) item))"

definition extract_bureaus_and_sections :: "ustr \<Rightarrow> ustr list" where
  "extract_bureaus_and_sections bracket_text =
     filter (\<lambda>item_clean. item_clean \<noteq> [] \<and> ends_in SECTION_ENDINGS item_clean
                          \<and> 2 \<le> length item_clean)
       (map section_item
          (map strip (filter (\<lambda>s. strip s \<noteq> []) (split_on 0x3001 bracket_text))))"

text \<open>The page-number test of line 149, \<^verbatim>\<open>^\d{1,3}$\<close>.\<close>

definition page_number :: "ustr \<Rightarrow> bool" where
  "page_number stripped \<longleftrightarrow>
     1 \<le> length (chomp stripped) \<and> length (chomp stripped) \<le> 3
     \<and> list_all isdecimal (chomp stripped)"

text \<open>
  \<^verbatim>\<open>FORCE_NEW\<close> (lines 136-138), one disjunct per alternative: digits and a space; a
  parenthesis and a digit; full-width digits 1-9 and a space; U+FF1C; U+3010; digits only.
\<close>

definition fullwidth_1_9 :: "nat \<Rightarrow> bool" where
  "fullwidth_1_9 c \<longleftrightarrow> 0xFF11 \<le> c \<and> c \<le> 0xFF19"

definition run_then_space :: "(nat \<Rightarrow> bool) \<Rightarrow> ustr \<Rightarrow> bool" where
  "run_then_space P s \<longleftrightarrow>
     takeWhile P s \<noteq> []
     \<and> (case dropWhile P s of [] \<Rightarrow> False | c # _ \<Rightarrow> isspace c)"

definition FORCE_NEW :: "ustr \<Rightarrow> bool" where
  "FORCE_NEW s \<longleftrightarrow>
     run_then_space isdecimal s
     \<or> (case s of a # b # _ \<Rightarrow> (a = 0xFF08 \<or> a = 0x28) \<and> isdecimal b | _ \<Rightarrow> False)
     \<or> run_then_space fullwidth_1_9 s
     \<or> prefix [0xFF1C] s
     \<or> prefix [0x3010] s
     \<or> (chomp s \<noteq> [] \<and> list_all isdecimal (chomp s))"

record jstate =
  blocks :: "ustr list"
  current :: "ustr option"
  open_brackets :: int

definition bracket_excess :: "ustr \<Rightarrow> int" where
  "bracket_excess s = int (count_list s 0xFF3B) - int (count_list s 0xFF3D)"

definition has_indent :: "ustr \<Rightarrow> bool" where
  "has_indent raw_line \<longleftrightarrow> prefix [0x20] raw_line \<or> prefix [9] raw_line"

text \<open>
  One turn of the loop of lines 144-165. \<^verbatim>\<open>current + stripped\<close> raises TypeError when
  \<^verbatim>\<open>current\<close> is \<^verbatim>\<open>None\<close>.
\<close>

definition join_line :: "jstate \<Rightarrow> ustr \<Rightarrow> error + jstate" where
  "join_line st raw_line =
     (if strip raw_line = [] then Inr st
      else if page_number (strip raw_line) then Inr st
      else if (has_indent raw_line \<or> current st = None \<or> FORCE_NEW (strip raw_line))
              \<and> \<not> (current st \<noteq> None \<and> open_brackets st > 0 \<and> \<not> has_indent raw_line)
      then Inr \<lparr>blocks = (case current st of None \<Rightarrow> blocks st | Some c \<Rightarrow> blocks st @ [c]),
                current = Some (strip raw_line),
                open_brackets = bracket_excess (strip raw_line)\<rparr>
      else (case current st of
              None \<Rightarrow> Inl TypeError
            | Some c \<Rightarrow>
                Inr \<lparr>blocks = blocks st,
                     current = Some (c @ strip raw_line),
                     open_brackets = max 0 (open_brackets st + bracket_excess (strip raw_line))\<rparr>))"

fun join_lines :: "jstate \<Rightarrow> ustr list \<Rightarrow> error + jstate" where
  "join_lines st [] = Inr st"
| "join_lines st (raw_line # raw_lines) =
     (case join_line st raw_line of Inl e \<Rightarrow> Inl e | Inr st' \<Rightarrow> join_lines st' raw_lines)"

definition finish_blocks :: "jstate \<Rightarrow> ustr list" where
  "finish_blocks st =
     (case current st of
        None \<Rightarrow> blocks st
      | Some c \<Rightarrow> if c \<noteq> [] then blocks st @ [c] else blocks st)"

definition join_continuation_lines :: "ustr \<Rightarrow> error + ustr list" where
  "join_continuation_lines raw_text =
     (case join_lines \<lparr>blocks = [], current = None, open_brackets = 0\<rparr> (split_on 10 raw_text) of
        Inl e \<Rightarrow> Inl e
      | Inr st \<Rightarrow> Inr (finish_blocks st))"

section \<open>Page merging (lines 182-193)\<close>

definition angle_excess :: "ustr \<Rightarrow> int" where
  "angle_excess s = int (count_list s 0xFF1C) - int (count_list s 0xFF1E)"

text \<open>
  The two nested loops, as one recursion over the pages not yet read: \<open>page_text\<close> and
  \<open>open_angles\<close> are the variables of the inner loop. While \<open>open_angles\<close> is positive
  and a page is left, the page is absorbed; otherwise \<open>page_text\<close> is appended to
  \<^verbatim>\<open>pages\<close> and the outer loop starts again at the next page.
\<close>

fun merge_from :: "ustr \<Rightarrow> int \<Rightarrow> ustr list \<Rightarrow> ustr list" where
  "merge_from page_text open_angles [] = [page_text]"
| "merge_from page_text open_angles (p # ps) =
     (if open_angles > 0
      then merge_from (page_text @ [10] @ p) (open_angles + angle_excess p) ps
      else page_text # merge_from p (angle_excess p) ps)"

definition merge_pages :: "ustr list \<Rightarrow> ustr list" where
  "merge_pages raw_pages =
     (case raw_pages of [] \<Rightarrow> [] | p # ps \<Rightarrow> merge_from p (angle_excess p) ps)"

section \<open>The entry classifier (lines 195-359)\<close>

record row =
  ministry :: ustr
  category :: ustr
  bureau :: ustr
  section_name :: ustr
  expanded_from :: ustr

record pstate =
  rows :: "row list"
  current_ministry :: ustr
  current_category :: ustr
  prev_bureau_base :: ustr
  prev_bureau_full :: ustr
  last_prefixes :: "ustr list"
  last_count_str :: ustr

text \<open>Line 227: does the next normalized block start with U+FF1C?\<close>

definition is_angle :: "ustr \<Rightarrow> bool" where
  "is_angle next_norm \<longleftrightarrow> prefix [0xFF1C] next_norm"

text \<open>
  Line 231, \<^verbatim>\<open>^<(.+?)>\<close> with the full-width angle brackets: the lazy group takes one
  character and then goes on to the first U+FF1E; a newline stops it. The result is the group.
\<close>

definition angle_match :: "ustr \<Rightarrow> ustr option" where
  "angle_match norm =
     (case norm of
        a # d # ds \<Rightarrow>
          if a = 0xFF1C \<and> d \<noteq> 10
             \<and> prefix [0xFF1E] (dropWhile (\<lambda>x. x \<noteq> 0xFF1E \<and> x \<noteq> 10) ds)
          then Some (d # takeWhile (\<lambda>x. x \<noteq> 0xFF1E \<and> x \<noteq> 10) ds) else None
      | _ \<Rightarrow> None)"

text \<open>
  \<^verbatim>\<open>.{lo,hi}[cls]$\<close> on the rest \<open>r\<close> of a string: \<open>lo\<close> to \<open>hi\<close> characters other than
  newline, one character of the class, the end.
\<close>

definition dots_then :: "nat \<Rightarrow> nat \<Rightarrow> nat list \<Rightarrow> ustr \<Rightarrow> bool" where
  "dots_then lo hi cls r \<longleftrightarrow>
     lo + 1 \<le> length r \<and> length r \<le> hi + 1
     \<and> 10 \<notin> set (butlast r) \<and> last r \<in> set cls"

definition MINISTRY_ENDS :: "nat list" where
  "MINISTRY_ENDS = [0x7701, 0x5E81, 0x9662, 0x5E9C]"

definition header_marker :: "nat \<Rightarrow> bool" where
  "header_marker c \<longleftrightarrow>
     c = 0x58 \<or> (0x2160 \<le> c \<and> c \<le> 0x216B) \<or> c = 0x78 \<or> c = 0x69 \<or> c = 0x76 \<or> c = 0x6C
     \<or> isdecimal c"

text \<open>
  Line 255: the greedy marker run is tried with all its \<open>m\<close> characters first and then
  with fewer, down to one; the first length \<open>k\<close> behind which the rest of the pattern
  matches gives the group.
\<close>

definition ministry_header_match :: "ustr \<Rightarrow> ustr option" where
  "ministry_header_match norm =
     (let t = chomp norm; m = length (takeWhile header_marker t)
      in case find (\<lambda>k. dots_then 2 20 MINISTRY_ENDS (drop k t)) (rev [1..<Suc m]) of
           None \<Rightarrow> None
         | Some k \<Rightarrow> Some (drop k t))"

text \<open>Line 258, \<^verbatim>\<open>^H[SC]$\<close> with H = U+672C, S = U+7701, C = U+5E81.\<close>

definition this_ministry :: "ustr \<Rightarrow> bool" where
  "this_ministry candidate \<longleftrightarrow>
     (case chomp candidate of [a, b] \<Rightarrow> a = 0x672C \<and> (b = 0x7701 \<or> b = 0x5E81) | _ \<Rightarrow> False)"

text \<open>Line 266.\<close>

definition numeral_start :: "ustr \<Rightarrow> bool" where
  "numeral_start norm \<longleftrightarrow>
     (case norm of
        [] \<Rightarrow> False
      | c # _ \<Rightarrow> c = 0x672C \<or> fullwidth_1_9 c \<or> c = 0x28 \<or> c = 0xFF08 \<or> isdecimal c)"

text \<open>Lines 264-266.\<close>

definition bare_ministry :: "ustr \<Rightarrow> bool" where
  "bare_ministry norm \<longleftrightarrow>
     dots_then 2 15 MINISTRY_ENDS (chomp norm)
     \<and> 0xFF08 \<notin> set norm \<and> 0x3001 \<notin> set norm \<and> \<not> numeral_start norm"

definition category_letter :: "nat \<Rightarrow> bool" where
  "category_letter c \<longleftrightarrow>
     (0xFF21 \<le> c \<and> c \<le> 0xFF29) \<or> (0xFF41 \<le> c \<and> c \<le> 0xFF46) \<or> (0x41 \<le> c \<and> c \<le> 0x49)"

text \<open>Line 272; the result is the group.\<close>

definition category_match :: "ustr \<Rightarrow> ustr option" where
  "category_match norm =
     (case chomp norm of
        [] \<Rightarrow> None
      | c # cat_text \<Rightarrow>
          if category_letter c \<and> 2 \<le> length cat_text \<and> length cat_text \<le> 15
             \<and> 10 \<notin> set cat_text
          then Some cat_text else None)"

definition CATEGORY_ENDS :: "nat list" where
  "CATEGORY_ENDS = [0x5C40, 0x90E8, 0x4F1A, 0x6A5F, 0x95A2]"

text \<open>
  Line 280, \<^verbatim>\<open>^(.+?)[(.+?)](.*)$\<close> with the full-width square brackets. No group matches
  a newline. The first lazy group ends at the first U+FF3B behind the first character,
  the second at the first U+FF3D behind the character that follows that bracket. The
  result is the three groups.
\<close>

definition bracket_match :: "ustr \<Rightarrow> (ustr \<times> ustr \<times> ustr) option" where
  "bracket_match norm =
     (if 10 \<in> set (chomp norm) then None
      else (case chomp norm of
              [] \<Rightarrow> None
            | c # cs \<Rightarrow>
                (case dropWhile (\<lambda>x. x \<noteq> 0xFF3B) cs of
                   _ # d # ds \<Rightarrow>
                     (case dropWhile (\<lambda>x. x \<noteq> 0xFF3D) ds of
                        [] \<Rightarrow> None
                      | _ # g3 \<Rightarrow>
                          Some (c # takeWhile (\<lambda>x. x \<noteq> 0xFF3B) cs,
                                d # takeWhile (\<lambda>x. x \<noteq> 0xFF3D) ds, g3))
                 | _ \<Rightarrow> None)))"

definition BARE_ENDS :: "nat list" where
  "BARE_ENDS = [0x5C40, 0x90E8, 0x6240, 0x7F72, 0x9928, 0x5E81, 0x6821, 0x533A]"

definition new_row :: "pstate \<Rightarrow> ustr \<Rightarrow> ustr \<Rightarrow> ustr \<Rightarrow> row" where
  "new_row st b s e =
     \<lparr>ministry = current_ministry st, category = current_category st, bureau = b,
      section_name = s, expanded_from = e\<rparr>"

text \<open>
  The count-suffix check, written twice in the script with the same text: lines 286-304
  on \<^verbatim>\<open>bureau_raw\<close> and lines 331-349 on \<^verbatim>\<open>norm\<close>. Here \<open>raw\<close> is that name.
\<close>

definition count_suffix_check :: "pstate \<Rightarrow> ustr \<Rightarrow> bool \<Rightarrow> pstate" where
  "count_suffix_check st raw next_is_angle =
     (let count_stripped = strip_count raw
      in if count_stripped \<noteq> raw \<and> ends_in ORG_ENDS count_stripped then
           (let cur_count = (case count_search raw of Some d \<Rightarrow> d | None \<Rightarrow> [])
            in if \<not> next_is_angle \<and> last_prefixes st \<noteq> [] \<and> cur_count \<noteq> []
                  \<and> cur_count = last_count_str st
               then st\<lparr>rows := rows st
                               @ map (\<lambda>pfx. new_row st (pfx @ count_stripped) [] raw)
                                   (last_prefixes st),
                       last_count_str := []\<rparr>
               else st\<lparr>prev_bureau_base := count_stripped, prev_bureau_full := raw\<rparr>)
         else st)"

text \<open>Lines 281-322, for the first two groups of the match of line 280.\<close>

definition bracket_rule :: "pstate \<Rightarrow> ustr \<Rightarrow> ustr \<Rightarrow> bool \<Rightarrow> pstate" where
  "bracket_rule st g1 g2 next_is_angle =
     (let bureau_raw = strip g1;
          sections = extract_bureaus_and_sections g2;
          st1 = count_suffix_check st bureau_raw next_is_angle;
          st2 = (if bureau_raw \<noteq> [] \<and> 2 \<le> length bureau_raw \<and> length bureau_raw \<le> 35
                 then st1\<lparr>rows := rows st1 @ [new_row st1 bureau_raw [] []]\<rparr> else st1)
      in st2\<lparr>rows := rows st2 @ map (\<lambda>sec. new_row st2 bureau_raw sec []) sections\<rparr>)"

text \<open>Lines 326-357.\<close>

definition bare_bureau :: "ustr \<Rightarrow> bool" where
  "bare_bureau norm \<longleftrightarrow>
     (ends_in BARE_ENDS norm \<or> (strip_count norm \<noteq> norm \<and> ends_in ORG_ENDS (strip_count norm)))
     \<and> 2 \<le> length norm \<and> length norm \<le> 25
     \<and> 0xFF08 \<notin> set norm \<and> 0x3001 \<notin> set norm"

definition bare_rule :: "pstate \<Rightarrow> ustr \<Rightarrow> bool \<Rightarrow> pstate" where
  "bare_rule st norm next_is_angle =
     (if bare_bureau norm then
        (let st1 = count_suffix_check st norm next_is_angle
         in st1\<lparr>rows := rows st1 @ [new_row st1 norm [] []]\<rparr>)
      else st)"

text \<open>Lines 279-357: the two bureau rules.\<close>

definition bureau_rules :: "pstate \<Rightarrow> ustr \<Rightarrow> bool \<Rightarrow> pstate" where
  "bureau_rules st norm next_is_angle =
     (case bracket_match norm of
        Some (g1, g2, g3) \<Rightarrow> bracket_rule st g1 g2 next_is_angle
      | None \<Rightarrow> bare_rule st norm next_is_angle)"

text \<open>Lines 250-357: what happens to a block that the angle-bracket rule does not take.\<close>

definition classify_other :: "pstate \<Rightarrow> ustr \<Rightarrow> bool \<Rightarrow> pstate" where
  "classify_other st0 norm next_is_angle =
     (let st = st0\<lparr>prev_bureau_base := [], prev_bureau_full := []\<rparr>
      in case ministry_header_match norm of
           Some candidate \<Rightarrow>
             if \<not> this_ministry candidate
             then st\<lparr>current_ministry := candidate, current_category := []\<rparr> else st
         | None \<Rightarrow>
             if bare_ministry norm
             then st\<lparr>current_ministry := norm, current_category := []\<rparr>
             else (case category_match norm of
                     Some cat_text \<Rightarrow>
                       if ends_in CATEGORY_ENDS cat_text
                       then st\<lparr>current_category := cat_text\<rparr>
                       else bureau_rules st norm next_is_angle
                   | None \<Rightarrow> bureau_rules st norm next_is_angle))"

text \<open>Lines 231-357: one non-empty normalized block, with the lookahead already taken.\<close>

definition classify :: "pstate \<Rightarrow> ustr \<Rightarrow> bool \<Rightarrow> error + pstate" where
  "classify st norm next_is_angle =
     (case (if prev_bureau_base st \<noteq> [] then angle_match norm else None) of
        Some content \<Rightarrow>
          (case expand_angle_content content of
             Inl e \<Rightarrow> Inl e
           | Inr pfxs \<Rightarrow>
               Inr (st\<lparr>last_prefixes := pfxs,
                       last_count_str :=
                         (case count_search (prev_bureau_full st) of Some d \<Rightarrow> d | None \<Rightarrow> []),
                       rows := rows st
                               @ map (\<lambda>pfx. new_row st (pfx @ prev_bureau_base st) []
                                                 (prev_bureau_full st)) pfxs,
                       prev_bureau_base := [], prev_bureau_full := []\<rparr>))
      | None \<Rightarrow> Inr (classify_other st norm next_is_angle))"

section \<open>The scan over pages and blocks (lines 204-228)\<close>

text \<open>Lines 214-218 and 222-226: the first non-empty normalized block, or the empty string.\<close>

fun first_norm :: "ustr list \<Rightarrow> ustr" where
  "first_norm [] = []"
| "first_norm (b # bs) = (if normalize_line b \<noteq> [] then normalize_line b else first_norm bs)"

text \<open>
  Lines 213-226: \<open>later\<close> are the blocks of the page behind the current one and
  \<open>next_page\<close> is the following page, if there is one; its blocks are joined only when
  the page at hand has no later non-empty block.
\<close>

definition lookahead :: "ustr list \<Rightarrow> ustr option \<Rightarrow> error + ustr" where
  "lookahead later next_page =
     (if first_norm later \<noteq> [] then Inr (first_norm later)
      else (case next_page of
              None \<Rightarrow> Inr []
            | Some page \<Rightarrow>
                (case join_continuation_lines page of
                   Inl e \<Rightarrow> Inl e
                 | Inr next_page_blocks \<Rightarrow> Inr (first_norm next_page_blocks))))"

fun parse_blocks :: "pstate \<Rightarrow> ustr list \<Rightarrow> ustr option \<Rightarrow> error + pstate" where
  "parse_blocks st [] next_page = Inr st"
| "parse_blocks st (block # later) next_page =
     (if normalize_line block = [] then parse_blocks st later next_page
      else (case lookahead later next_page of
              Inl e \<Rightarrow> Inl e
            | Inr next_norm \<Rightarrow>
                (case classify st (normalize_line block) (is_angle next_norm) of
                   Inl e \<Rightarrow> Inl e
                 | Inr st' \<Rightarrow> parse_blocks st' later next_page)))"

fun parse_pages :: "pstate \<Rightarrow> ustr list \<Rightarrow> error + pstate" where
  "parse_pages st [] = Inr st"
| "parse_pages st (page # pages) =
     (case join_continuation_lines page of
        Inl e \<Rightarrow> Inl e
      | Inr page_blocks \<Rightarrow>
          (case parse_blocks st page_blocks (case pages of [] \<Rightarrow> None | q # _ \<Rightarrow> Some q) of
             Inl e \<Rightarrow> Inl e
           | Inr st' \<Rightarrow> parse_pages st' pages))"

definition initial :: pstate where
  "initial =
     \<lparr>rows = [], current_ministry = [], current_category = [], prev_bureau_base = [],
      prev_bureau_full = [], last_prefixes = [], last_count_str = []\<rparr>"

text \<open>Lines 176-359 for a list of raw pages.\<close>

definition parse_raw_pages :: "ustr list \<Rightarrow> error + row list" where
  "parse_raw_pages raw_pages =
     (case parse_pages initial (merge_pages raw_pages) of
        Inl e \<Rightarrow> Inl e
      | Inr st \<Rightarrow> Inr (rows st))"

text \<open>
  \<^verbatim>\<open>parse_pdf\<close>, for the text \<open>raw\<close> that the PDF library returns (the library is not part
  of the repository): pages are separated by form feeds.
\<close>

definition parse_pdf :: "ustr \<Rightarrow> error + row list" where
  "parse_pdf raw = parse_raw_pages (split_on 0x0C raw)"

section \<open>Deduplication and aliases (lines 365-393)\<close>

definition key_of :: "'a row_scheme \<Rightarrow> ustr \<times> ustr \<times> ustr \<times> ustr" where
  "key_of r = (ministry r, category r, bureau r, section_name r)"

text \<open>The loop of lines 366-372 with its variables \<^verbatim>\<open>seen\<close> and \<^verbatim>\<open>unique\<close>.\<close>

fun unique_loop :: "(ustr \<times> ustr \<times> ustr \<times> ustr) set \<Rightarrow> row list \<Rightarrow> row list \<Rightarrow> row list" where
  "unique_loop seen unique [] = unique"
| "unique_loop seen unique (r # rs) =
     (if key_of r \<notin> seen \<and> ministry r \<noteq> []
      then unique_loop (insert (key_of r) seen) (unique @ [r]) rs
      else unique_loop seen unique rs)"

definition dedup :: "row list \<Rightarrow> row list" where
  "dedup rs = unique_loop {} [] rs"

text \<open>\<^verbatim>\<open>old in s\<close> for strings.\<close>

fun str_contains :: "ustr \<Rightarrow> ustr \<Rightarrow> bool" where
  "str_contains old [] \<longleftrightarrow> old = []"
| "str_contains old (c # cs) \<longleftrightarrow> prefix old (c # cs) \<or> str_contains old cs"

text \<open>\<^verbatim>\<open>s.replace(old, '')\<close>: the occurrences of \<open>old\<close> are removed from left to right.\<close>

function str_remove :: "ustr \<Rightarrow> ustr \<Rightarrow> ustr" where
  "str_remove old [] = []"
| "str_remove old (c # cs) =
     (if old \<noteq> [] \<and> prefix old (c # cs)
      then str_remove old (drop (length old) (c # cs))
      else c # str_remove old cs)"
  by pat_completeness auto
termination
  by (relation "measure (\<lambda>(old, s). length s)") auto

record out_row = row +
  bureau_alias :: ustr

text \<open>The qualifier U+5730 U+65B9 ("chihou") of line 388.\<close>

definition chihou :: ustr where
  "chihou = [0x5730, 0x65B9]"

text \<open>
  Lines 387-393 for one record; \<open>exists_in_db\<close> is the lookup in the recipients database,
  which is not part of the repository.
\<close>

definition assign_alias :: "(ustr \<Rightarrow> bool) \<Rightarrow> row \<Rightarrow> out_row" where
  "assign_alias exists_in_db r =
     \<lparr>ministry = ministry r, category = category r, bureau = bureau r,
      section_name = section_name r, expanded_from = expanded_from r,
      bureau_alias =
        (if expanded_from r \<noteq> [] \<and> str_contains chihou (bureau r) then
           (let candidate = str_remove chihou (bureau r)
            in if candidate \<noteq> bureau r \<and> exists_in_db candidate \<and> \<not> exists_in_db (bureau r)
               then candidate else [])
         else [])\<rparr>"

text \<open>The names that lines 388-391 look up for one record, in the order of the calls.\<close>

definition lookups :: "(ustr \<Rightarrow> bool) \<Rightarrow> row \<Rightarrow> ustr list" where
  "lookups exists_in_db r =
     (if expanded_from r \<noteq> [] \<and> str_contains chihou (bureau r)
         \<and> str_remove chihou (bureau r) \<noteq> bureau r
      then str_remove chihou (bureau r)
           # (if exists_in_db (str_remove chihou (bureau r)) then [bureau r] else [])
      else [])"

text \<open>The records that \<^verbatim>\<open>main\<close> writes, for the rows of the scan.\<close>

definition publish :: "(ustr \<Rightarrow> bool) \<Rightarrow> row list \<Rightarrow> out_row list" where
  "publish exists_in_db rs = map (assign_alias exists_in_db) (dedup rs)"

text \<open>The whole engine: pages and lookup in, records out.\<close>

definition recover :: "ustr list \<Rightarrow> (ustr \<Rightarrow> bool) \<Rightarrow> error + out_row list" where
  "recover raw_pages exists_in_db =
     (case parse_raw_pages raw_pages of
        Inl e \<Rightarrow> Inl e
      | Inr rs \<Rightarrow> Inr (publish exists_in_db rs))"

text \<open>
  The deduplication in the words of the specification: unique by key in first-seen
  order, records with an empty ministry dropped. It is compared below with the loop of
  the script.
\<close>

fun first_seen :: "row list \<Rightarrow> row list" where
  "first_seen [] = []"
| "first_seen (r # rs) =
     (if ministry r = [] then first_seen rs
      else r # filter (\<lambda>x. key_of x \<noteq> key_of r) (first_seen rs))"

text \<open>A record used in examples: ministry U+5916 U+52D9 U+7701, bureau U+5927 U+81E3 U+5B98 U+623F.\<close>

definition sample_row :: row where
  "sample_row =
     \<lparr>ministry = [0x5916, 0x52D9, 0x7701], category = [],
      bureau = [0x5927, 0x81E3, 0x5B98, 0x623F], section_name = [], expanded_from = []\<rparr>"

text \<open>
  The two raw lines of the continuation example of the specification: two spaces and
  "dai jin kan bou [ kan bou chou" with a space between the characters, and
  ", kou bun sho kan ri kan ]" likewise; the block they join to; and its normal form.
\<close>

definition example_line1 :: ustr where
  "example_line1 =
     [0x20, 0x20, 0x5927, 0x20, 0x81E3, 0x20, 0x5B98, 0x20, 0x623F, 0x20, 0xFF3B, 0x20,
      0x5B98, 0x20, 0x623F, 0x20, 0x9577]"

definition example_line2 :: ustr where
  "example_line2 =
     [0x3001, 0x20, 0x516C, 0x20, 0x6587, 0x20, 0x66F8, 0x20, 0x76E3, 0x20, 0x7406, 0x20,
      0x5B98, 0x20, 0xFF3D]"

definition example_block :: ustr where
  "example_block =
     [0x5927, 0x20, 0x81E3, 0x20, 0x5B98, 0x20, 0x623F, 0x20, 0xFF3B, 0x20, 0x5B98, 0x20,
      0x623F, 0x20, 0x9577, 0x3001, 0x20, 0x516C, 0x20, 0x6587, 0x20, 0x66F8, 0x20, 0x76E3,
      0x20, 0x7406, 0x20, 0x5B98, 0x20, 0xFF3D]"

definition example_norm :: ustr where
  "example_norm =
     [0x5927, 0x81E3, 0x5B98, 0x623F, 0xFF3B, 0x5B98, 0x623F, 0x9577, 0x3001, 0x516C,
      0x6587, 0x66F8, 0x76E3, 0x7406, 0x5B98, 0xFF3D]"

definition daijin_kanbou :: ustr where
  "daijin_kanbou = [0x5927, 0x81E3, 0x5B98, 0x623F]"

definition kanbouchou :: ustr where
  "kanbouchou = [0x5B98, 0x623F, 0x9577]"

definition koubunsho_kanrikan :: ustr where
  "koubunsho_kanrikan = [0x516C, 0x6587, 0x66F8, 0x76E3, 0x7406, 0x5B98]"

text \<open>
  The rows that reach the alias pass: the deduplicated rows of the scan (none when the
  scan raised).
\<close>

definition kept_rows :: "ustr list \<Rightarrow> row list" where
  "kept_rows raw_pages =
     (case parse_raw_pages raw_pages of Inl e \<Rightarrow> [] | Inr rs \<Rightarrow> dedup rs)"

text \<open>
  Names for the alias example of the specification: "kyuu shuu chi hou bou ei kyoku",
  the same without the qualifier, a row with that bureau that came from an expansion,
  and three lookups: one that knows only the short name, one that knows both, one that
  knows none.
\<close>

definition kyushu_chihou_boueikyoku :: ustr where
  "kyushu_chihou_boueikyoku = [0x4E5D, 0x5DDE, 0x5730, 0x65B9, 0x9632, 0x885B, 0x5C40]"

definition kyushu_boueikyoku :: ustr where
  "kyushu_boueikyoku = [0x4E5D, 0x5DDE, 0x9632, 0x885B, 0x5C40]"

definition expanded_row :: row where
  "expanded_row =
     \<lparr>ministry = [0x9632, 0x885B, 0x7701], category = [], bureau = kyushu_chihou_boueikyoku,
      section_name = [], expanded_from = [0x5730, 0x65B9, 0x9632, 0x885B, 0x5C40, 0xFF18]\<rparr>"

definition knows_short :: "ustr \<Rightarrow> bool" where
  "knows_short n \<longleftrightarrow> n = kyushu_boueikyoku"

definition knows_both :: "ustr \<Rightarrow> bool" where
  "knows_both n \<longleftrightarrow> n = kyushu_boueikyoku \<or> n = kyushu_chihou_boueikyoku"

definition knows_none :: "ustr \<Rightarrow> bool" where
  "knows_none n \<longleftrightarrow> False"

text \<open>
  Which rule of the classifier takes a normalized block in a state: the tests of lines
  232, 256, 264-266, 273-275, 281 and 330, in the order of the script.
\<close>

datatype rule = Angle | Header | Ministry | Category | Bracket | Bare | Ignored

definition rule_of :: "pstate \<Rightarrow> ustr \<Rightarrow> rule" where
  "rule_of st norm =
     (if angle_match norm \<noteq> None \<and> prev_bureau_base st \<noteq> [] then Angle
      else if ministry_header_match norm \<noteq> None then Header
      else if bare_ministry norm then Ministry
      else if (case category_match norm of
                 None \<Rightarrow> False
               | Some cat_text \<Rightarrow> ends_in CATEGORY_ENDS cat_text) then Category
      else if bracket_match norm \<noteq> None then Bracket
      else if bare_bureau norm then Bare
      else Ignored)"

text \<open>
  The name that the two bureau rules work on: \<^verbatim>\<open>bureau_raw\<close> for a block with brackets
  (line 282), the whole block otherwise.
\<close>

definition line_name :: "ustr \<Rightarrow> ustr" where
  "line_name norm =
     (case bracket_match norm of Some (g1, g2, g3) \<Rightarrow> strip g1 | None \<Rightarrow> norm)"

text \<open>The sections of a block with brackets (line 284); none for another block.\<close>

definition line_sections :: "ustr \<Rightarrow> ustr list" where
  "line_sections norm =
     (case bracket_match norm of
        Some (g1, g2, g3) \<Rightarrow> extract_bureaus_and_sections g2
      | None \<Rightarrow> [])"

text \<open>The test of lines 287 and 332: the name ends in a count, and in an organization suffix without it.\<close>

definition expansion_candidate :: "ustr \<Rightarrow> bool" where
  "expansion_candidate raw \<longleftrightarrow>
     strip_count raw \<noteq> raw \<and> ends_in ORG_ENDS (strip_count raw)"

text \<open>The length bound under which a bureau rule emits the row of the name itself (lines 306 and 330).\<close>

definition literal_bound :: "ustr \<Rightarrow> bool" where
  "literal_bound norm \<longleftrightarrow>
     (case bracket_match norm of
        Some (g1, g2, g3) \<Rightarrow> strip g1 \<noteq> [] \<and> 2 \<le> length (strip g1) \<and> length (strip g1) \<le> 35
      | None \<Rightarrow> 2 \<le> length norm \<and> length norm \<le> 25)"






text \<open>\<^verbatim>\<open>cur_count\<close> of lines 289-290 and 334-335: the count at the end of the name, or the empty string.\<close>

definition cur_count :: "ustr \<Rightarrow> ustr" where
  "cur_count raw = (case count_search raw of Some d \<Rightarrow> d | None \<Rightarrow> [])"

text \<open>
  When the count-suffix check reuses the cached prefixes: the tests of lines 287 and
  291-292 (and 332, 336-337) together.
\<close>

definition carry_fires :: "pstate \<Rightarrow> ustr \<Rightarrow> bool \<Rightarrow> bool" where
  "carry_fires st raw next_is_angle \<longleftrightarrow>
     expansion_candidate raw \<and> \<not> next_is_angle \<and> last_prefixes st \<noteq> []
     \<and> cur_count raw \<noteq> [] \<and> cur_count raw = last_count_str st"

text \<open>The rows that a bureau rule appends for the name itself and for its sections.\<close>

definition own_rows :: "pstate \<Rightarrow> ustr \<Rightarrow> row list" where
  "own_rows st norm =
     (if literal_bound norm then [new_row st (line_name norm) [] []] else [])
     @ map (\<lambda>sec. new_row st (line_name norm) sec []) (line_sections norm)"

text \<open>The rows that the count-suffix check appends when it reuses the cached prefixes.\<close>

definition carried_rows :: "pstate \<Rightarrow> ustr \<Rightarrow> row list" where
  "carried_rows st raw =
     map (\<lambda>pfx. new_row st (pfx @ strip_count raw) [] raw) (last_prefixes st)"

text \<open>
  Names for the carry-over examples: the numbered bureau line "kan ku kei satsu kyoku 6",
  the same without the count, the prefix "tou hoku", and a state of the scan that has
  just expanded a template of count 6 to that one prefix.
\<close>

definition kanku_keisatsukyoku_6 :: ustr where
  "kanku_keisatsukyoku_6 = [0x7BA1, 0x533A, 0x8B66, 0x5BDF, 0x5C40, 0xFF16]"

definition kanku_keisatsukyoku :: ustr where
  "kanku_keisatsukyoku = [0x7BA1, 0x533A, 0x8B66, 0x5BDF, 0x5C40]"

definition touhoku :: ustr where
  "touhoku = [0x6771, 0x5317]"

definition carry_state :: pstate where
  "carry_state =
     \<lparr>rows = [], current_ministry = [0x8B66, 0x5BDF, 0x5E81], current_category = [],
      prev_bureau_base = [], prev_bureau_full = [], last_prefixes = [touhoku],
      last_count_str = [0xFF16]\<rparr>"

text \<open>
  A page of three indented lines for an example of the whole engine: the ministry
  "bou ei shou", the numbered bureau "chi hou bou ei kyoku 8" and the template line
  with the one prefix "kyuu shuu" in angle brackets; the names on it; the row of the
  numbered bureau itself; and a lookup that knows the short name and the string "a".
\<close>

definition alias_page :: ustr where
  "alias_page =
     [0x20, 0x9632, 0x885B, 0x7701, 10,
      0x20, 0x5730, 0x65B9, 0x9632, 0x885B, 0x5C40, 0xFF18, 10,
      0x20, 0xFF1C, 0x4E5D, 0x5DDE, 0xFF1E]"

definition boueishou :: ustr where
  "boueishou = [0x9632, 0x885B, 0x7701]"

definition chihou_boueikyoku_8 :: ustr where
  "chihou_boueikyoku_8 = [0x5730, 0x65B9, 0x9632, 0x885B, 0x5C40, 0xFF18]"

definition kyushu_template :: ustr where
  "kyushu_template = [0xFF1C, 0x4E5D, 0x5DDE, 0xFF1E]"

definition numbered_row :: row where
  "numbered_row =
     \<lparr>ministry = [0x9632, 0x885B, 0x7701], category = [],
      bureau = [0x5730, 0x65B9, 0x9632, 0x885B, 0x5C40, 0xFF18], section_name = [],
      expanded_from = []\<rparr>"

definition knows_short_and_a :: "ustr \<Rightarrow> bool" where
  "knows_short_and_a n \<longleftrightarrow> n = kyushu_boueikyoku \<or> n = [0x61]"












section \<open>Page merging: which pages are balanced\<close>







section \<open>Deduplication\<close>

lemma unique_loop_first_seen:
  "unique_loop seen unique rs = unique @ filter (\<lambda>x. key_of x \<notin> seen) (first_seen rs)"
proof (induction rs arbitrary: seen unique)
  case Nil
  show ?case by simp
next
  case (Cons r rs)
  have eq: "\<And>x. (key_of x \<notin> insert (key_of r) seen) = (key_of x \<notin> seen \<and> key_of x \<noteq> key_of r)"
    by auto
  show ?case
  proof (cases "key_of r \<notin> seen \<and> ministry r \<noteq> []")
    case True
    then show ?thesis by (simp add: Cons.IH eq)
  next
    case False
    show ?thesis
    proof (cases "ministry r = []")
      case True
      then show ?thesis by (simp add: Cons.IH)
    next
      case m: False
      with False have k: "key_of r \<in> seen" by simp
      have "filter (\<lambda>x. key_of x \<notin> seen) (filter (\<lambda>x. key_of x \<noteq> key_of r) (first_seen rs))
            = filter (\<lambda>x. key_of x \<notin> seen) (first_seen rs)"
        using k by (auto intro: filter_cong)
      with m k show ?thesis by (simp add: Cons.IH)
    qed
  qed
qed

lemma dedup_first_seen: "dedup rs = first_seen rs"
  by (simp add: dedup_def unique_loop_first_seen)

lemma first_seen_subset: "r \<in> set (first_seen rs) \<Longrightarrow> r \<in> set rs \<and> ministry r \<noteq> []"
  by (induction rs) (auto split: if_splits)

lemma first_seen_distinct: "distinct (map key_of (first_seen rs))"
proof (induction rs)
  case Nil show ?case by simp
next
  case (Cons r rs)
  have "distinct (map key_of (filter (\<lambda>x. key_of x \<noteq> key_of r) (first_seen rs)))"
    using Cons.IH by (simp add: distinct_map_filter)
  then show ?case using Cons.IH by auto
qed

lemma first_seen_subseq: "subseq (first_seen rs) rs"
proof (induction rs)
  case Nil show ?case by simp
next
  case (Cons r rs)
  have "subseq (filter (\<lambda>x. key_of x \<noteq> key_of r) (first_seen rs)) (first_seen rs)"
    by simp
  then have "subseq (filter (\<lambda>x. key_of x \<noteq> key_of r) (first_seen rs)) rs"
    using Cons.IH subseq_order.order_trans by blast
  then show ?case using Cons.IH by auto
qed

lemma first_seen_first:
  "r \<in> set (first_seen rs) \<Longrightarrow> find (\<lambda>x. key_of x = key_of r) rs = Some r"
proof (induction rs)
  case Nil then show ?case by simp
next
  case (Cons a rs)
  show ?case
  proof (cases "ministry a = []")
    case True
    with Cons.prems have r: "r \<in> set (first_seen rs)" by simp
    then have "ministry r \<noteq> []" using first_seen_subset by blast
    with True have "key_of a \<noteq> key_of r" by (auto simp: key_of_def)
    with Cons.IH [OF r] show ?thesis by simp
  next
    case False
    with Cons.prems have "r = a \<or> (r \<in> set (first_seen rs) \<and> key_of r \<noteq> key_of a)" by auto
    then show ?thesis using Cons.IH by auto
  qed
qed

lemma key_of_assign_alias [simp]: "key_of (assign_alias ex r) = key_of r"
  by (simp add: key_of_def assign_alias_def)

lemma ministry_assign_alias [simp]: "ministry (assign_alias ex r) = ministry r"
  by (simp add: assign_alias_def)

text \<open>
  Claim C6. Whatever rows the scan produced and whatever the lookup answers, the
  published records have pairwise different keys (ministry, category, bureau, section)
  and none has an empty ministry; they are the records that the specification's
  first-seen deduplication keeps, in that order, each with its alias added; the record
  kept for a key is the first row of the scan with that key; and the kept rows stand in
  the order of the scan.
\<close>

theorem published_unique_first_seen:
  "distinct (map key_of (publish ex rs))
   \<and> (\<forall>r \<in> set (publish ex rs). ministry r \<noteq> [])
   \<and> publish ex rs = map (assign_alias ex) (first_seen rs)
   \<and> (\<forall>r \<in> set (first_seen rs). find (\<lambda>x. key_of x = key_of r) rs = Some r)
   \<and> subseq (first_seen rs) rs"
proof -
  have "map key_of (publish ex rs) = map key_of (first_seen rs)"
    by (simp add: publish_def dedup_first_seen comp_def)
  then have "distinct (map key_of (publish ex rs))"
    by (simp add: first_seen_distinct)
  moreover have "\<forall>r \<in> set (publish ex rs). ministry r \<noteq> []"
    using first_seen_subset by (auto simp: publish_def dedup_first_seen)
  moreover have "publish ex rs = map (assign_alias ex) (first_seen rs)"
    by (simp add: publish_def dedup_first_seen)
  ultimately show ?thesis
    using first_seen_first first_seen_subseq by blast
qed

theorem published_unique_first_seen_witness:
  "distinct (map key_of (publish (\<lambda>n. False) [sample_row, sample_row\<lparr>ministry := []\<rparr>, sample_row\<lparr>expanded_from := [0x31]\<rparr>]))
   \<and> publish (\<lambda>n. False) [sample_row, sample_row\<lparr>ministry := []\<rparr>, sample_row\<lparr>expanded_from := [0x31]\<rparr>]
       = [assign_alias (\<lambda>n. False) sample_row]"
  using published_unique_first_seen
    [of "\<lambda>n. False" "[sample_row, sample_row\<lparr>ministry := []\<rparr>, sample_row\<lparr>expanded_from := [0x31]\<rparr>]"]
  by (simp add: sample_row_def key_of_def)

section \<open>The continuation example\<close>

lemma example_join:
  "join_continuation_lines (example_line1 @ [10] @ example_line2) = Inr [example_block]"
  by (simp add: example_line1_def example_line2_def example_block_def
        join_continuation_lines_def join_line_def finish_blocks_def strip_def isspace_def
        page_number_def chomp_def has_indent_def FORCE_NEW_def run_then_space_def
        fullwidth_1_9_def isdecimal_def decimal_zeros_def bracket_excess_def)

lemma example_normalize: "normalize_line example_block = example_norm"
  by (simp add: example_block_def example_norm_def normalize_line_def strip_def isspace_def)

lemma example_no_angle: "angle_match example_norm = None"
  by (simp add: example_norm_def angle_match_def)

lemma example_no_header: "ministry_header_match example_norm = None"
  by (simp add: example_norm_def ministry_header_match_def chomp_def header_marker_def
        isdecimal_def decimal_zeros_def)

lemma example_no_ministry: "\<not> bare_ministry example_norm"
  by (simp add: example_norm_def bare_ministry_def dots_then_def chomp_def MINISTRY_ENDS_def)

lemma example_no_category: "category_match example_norm = None"
  by (simp add: example_norm_def category_match_def chomp_def category_letter_def)

lemma example_bracket:
  "bracket_match example_norm
   = Some (daijin_kanbou, kanbouchou @ 0x3001 # koubunsho_kanrikan, [])"
  by (simp add: example_norm_def daijin_kanbou_def kanbouchou_def koubunsho_kanrikan_def
        bracket_match_def chomp_def)

lemma example_sections:
  "extract_bureaus_and_sections (kanbouchou @ 0x3001 # koubunsho_kanrikan)
   = [koubunsho_kanrikan]"
  by (simp add: kanbouchou_def koubunsho_kanrikan_def extract_bureaus_and_sections_def
        section_item_def strip_def isspace_def ends_in_def chomp_def SECTION_ENDINGS_def)

lemma example_bureau_plain:
  "strip daijin_kanbou = daijin_kanbou" "strip_count daijin_kanbou = daijin_kanbou"
  "length daijin_kanbou = 4" "daijin_kanbou \<noteq> []"
  by (simp_all add: daijin_kanbou_def strip_count_def chomp_def count_digit_def strip_def
        isspace_def)

lemma example_classify:
  "classify st example_norm nia
   = Inr (st\<lparr>prev_bureau_base := [], prev_bureau_full := [],
             rows := rows st
               @ [\<lparr>ministry = current_ministry st, category = current_category st,
                   bureau = daijin_kanbou, section_name = [], expanded_from = []\<rparr>,
                  \<lparr>ministry = current_ministry st, category = current_category st,
                   bureau = daijin_kanbou, section_name = koubunsho_kanrikan,
                   expanded_from = []\<rparr>]\<rparr>)"
  by (simp add: classify_def classify_other_def example_no_angle example_no_header
        example_no_ministry example_no_category bureau_rules_def example_bracket
        bracket_rule_def example_sections example_bureau_plain count_suffix_check_def
        new_row_def Let_def)

text \<open>
  Claim C5. The two raw lines of the example join to one block; its normal form is
  "dai jin kan bou [ kan bou chou , kou bun sho kan ri kan ]" without spaces; and in any
  state of the scan, classifying it appends exactly two rows: the bureau row (bureau
  "dai jin kan bou", empty section) and one section row for "kou bun sho kan ri kan".
  The item "kan bou chou" gives no row, since it does not end in a section suffix; the
  other item ends in U+5B98 and has six characters.
\<close>

theorem continuation_example:
  "join_continuation_lines (example_line1 @ [10] @ example_line2) = Inr [example_block]
   \<and> normalize_line example_block = example_norm
   \<and> classify st example_norm nia
       = Inr (st\<lparr>prev_bureau_base := [], prev_bureau_full := [],
                 rows := rows st
                   @ [\<lparr>ministry = current_ministry st, category = current_category st,
                       bureau = daijin_kanbou, section_name = [], expanded_from = []\<rparr>,
                      \<lparr>ministry = current_ministry st, category = current_category st,
                       bureau = daijin_kanbou, section_name = koubunsho_kanrikan,
                       expanded_from = []\<rparr>]\<rparr>)
   \<and> \<not> ends_in SECTION_ENDINGS kanbouchou
   \<and> ends_in SECTION_ENDINGS koubunsho_kanrikan \<and> 2 \<le> length koubunsho_kanrikan"
proof -
  have "\<not> ends_in SECTION_ENDINGS kanbouchou"
    by (simp add: ends_in_def chomp_def SECTION_ENDINGS_def kanbouchou_def)
  moreover have "ends_in SECTION_ENDINGS koubunsho_kanrikan \<and> 2 \<le> length koubunsho_kanrikan"
    by (simp add: ends_in_def chomp_def SECTION_ENDINGS_def koubunsho_kanrikan_def)
  ultimately show ?thesis
    using example_join example_normalize example_classify by blast
qed

section \<open>Block joining under an open bracket\<close>

text \<open>
  Claim C3, as amended. The claim says that under an open bracket the next line is
  appended whatever its indentation. The guard of line 155 holds only for a line that
  is not indented. So what holds is: when a block is open and its counter of unclosed
  U+FF3B is positive, a non-empty line that is not a page number is appended to the
  block if it is not indented, also when it has a forced-new shape; if it is indented it
  closes the block and starts a new one.
\<close>

theorem open_bracket_continuation:
  assumes "current st = Some c" and "open_brackets st > 0"
    and "strip raw_line \<noteq> []" and "\<not> page_number (strip raw_line)"
  shows "join_line st raw_line =
     (if has_indent raw_line
      then Inr \<lparr>blocks = blocks st @ [c], current = Some (strip raw_line),
                open_brackets = bracket_excess (strip raw_line)\<rparr>
      else Inr \<lparr>blocks = blocks st, current = Some (c @ strip raw_line),
                open_brackets = max 0 (open_brackets st + bracket_excess (strip raw_line))\<rparr>)"
  using assms by (simp add: join_line_def)

theorem open_bracket_continuation_witness:
  "FORCE_NEW (strip [0xFF1C, 0x62]) \<and> \<not> has_indent [0xFF1C, 0x62]
   \<and> join_line \<lparr>blocks = [], current = Some [0x61, 0xFF3B], open_brackets = 1\<rparr> [0xFF1C, 0x62]
       = Inr \<lparr>blocks = [], current = Some [0x61, 0xFF3B, 0xFF1C, 0x62], open_brackets = 1\<rparr>"
proof -
  have s: "strip [0xFF1C, 0x62] = [0xFF1C, 0x62]"
    by (simp add: strip_def isspace_def)
  have p: "\<not> page_number (strip [0xFF1C, 0x62])"
    by (simp add: s page_number_def chomp_def isdecimal_def decimal_zeros_def)
  have i: "\<not> has_indent [0xFF1C, 0x62]"
    by (simp add: has_indent_def)
  have f: "FORCE_NEW (strip [0xFF1C, 0x62])"
    by (simp add: s FORCE_NEW_def)
  have "join_line \<lparr>blocks = [], current = Some [0x61, 0xFF3B], open_brackets = 1\<rparr> [0xFF1C, 0x62]
       = Inr \<lparr>blocks = [], current = Some ([0x61, 0xFF3B] @ strip [0xFF1C, 0x62]),
              open_brackets = max 0 (1 + bracket_excess (strip [0xFF1C, 0x62]))\<rparr>"
    using open_bracket_continuation
      [of "\<lparr>blocks = [], current = Some [0x61, 0xFF3B], open_brackets = 1\<rparr>"
          "[0x61, 0xFF3B]" "[0xFF1C, 0x62]"] p i
    by (simp add: s)
  then show ?thesis using f i by (simp add: s bracket_excess_def)
qed

text \<open>
  The claim as stated fails when the line is indented: with the block "a" U+FF3B open
  and one bracket unclosed, the line " b" starts a new block, and the text of the two
  lines gives two blocks.
\<close>

theorem open_bracket_indented_line:
  "join_line \<lparr>blocks = [], current = Some [0x61, 0xFF3B], open_brackets = 1\<rparr> [0x20, 0x62]
     = Inr \<lparr>blocks = [[0x61, 0xFF3B]], current = Some [0x62], open_brackets = 0\<rparr>
   \<and> join_continuation_lines [0x61, 0xFF3B, 10, 0x20, 0x62] = Inr [[0x61, 0xFF3B], [0x62]]"
  by (simp add: join_continuation_lines_def join_line_def finish_blocks_def strip_def
        isspace_def page_number_def chomp_def has_indent_def FORCE_NEW_def run_then_space_def
        fullwidth_1_9_def isdecimal_def decimal_zeros_def bracket_excess_def)

section \<open>Aliases\<close>

lemma str_remove_length: "length (str_remove old s) \<le> length s"
proof (induction old s rule: str_remove.induct)
  case (1 old) show ?case by simp
next
  case (2 old c cs)
  show ?case
  proof (cases "old \<noteq> [] \<and> prefix old (c # cs)")
    case True
    with "2.IH"(1)
    have "length (str_remove old (drop (length old) (c # cs)))
          \<le> length (drop (length old) (c # cs))"
      by blast
    with True show ?thesis by simp
  next
    case False
    with "2.IH"(2) show ?thesis by auto
  qed
qed

lemma str_remove_shorter:
  "old \<noteq> [] \<Longrightarrow> str_contains old s \<Longrightarrow> length (str_remove old s) < length s"
proof (induction old s rule: str_remove.induct)
  case (1 old) then show ?case by simp
next
  case (2 old c cs)
  show ?case
  proof (cases "prefix old (c # cs)")
    case True
    have a: "length (str_remove old (drop (length old) (c # cs)))
             \<le> length (drop (length old) (c # cs))"
      by (rule str_remove_length)
    have b: "length (drop (length old) (c # cs)) < length (c # cs)"
      using "2.prems"(1) by (cases old) auto
    have eq: "str_remove old (c # cs) = str_remove old (drop (length old) (c # cs))"
      using True "2.prems"(1) by simp
    from a b have "length (str_remove old (drop (length old) (c # cs))) < length (c # cs)"
      by linarith
    then show ?thesis by (simp only: eq)
  next
    case False
    with "2.prems" have "str_contains old cs" by simp
    with "2.IH"(2) False "2.prems"(1) show ?thesis by auto
  qed
qed

lemma candidate_differs: "str_contains chihou b \<Longrightarrow> str_remove chihou b \<noteq> b"
  using str_remove_shorter [of chihou b] by (auto simp: chihou_def)

lemma assign_alias_fields [simp]:
  "bureau (assign_alias ex r) = bureau r"
  "expanded_from (assign_alias ex r) = expanded_from r"
  by (simp_all add: assign_alias_def)

lemma assign_alias_cases:
  "bureau_alias (assign_alias ex r) =
     (if expanded_from r \<noteq> [] \<and> str_contains chihou (bureau r)
         \<and> ex (str_remove chihou (bureau r)) \<and> \<not> ex (bureau r)
      then str_remove chihou (bureau r) else [])"
  by (auto simp: assign_alias_def candidate_differs Let_def)

text \<open>
  Claim C7. For every published record and every lookup: the alias is the bureau name
  without the qualifier "chi hou" when the record came from an expansion, its bureau
  contains the qualifier, the lookup knows the shorter name and does not know the bureau
  name; in every other case the alias is the empty string. (The script also tests that
  the shorter name differs from the bureau name, which follows from the second
  condition.) The claim's "equals if and only if" is read as this definition by cases:
  the empty string stands for "no alias", and for a bureau that is nothing but the
  qualifier the shorter name is the empty string too.
\<close>

theorem alias_only_when_validated:
  assumes "out \<in> set (publish ex rs)"
  shows "bureau_alias out =
     (if expanded_from out \<noteq> [] \<and> str_contains chihou (bureau out)
         \<and> ex (str_remove chihou (bureau out)) \<and> \<not> ex (bureau out)
      then str_remove chihou (bureau out) else [])"
proof -
  from assms obtain r where "out = assign_alias ex r"
    by (auto simp: publish_def)
  then show ?thesis by (simp add: assign_alias_cases)
qed

lemma example_publish: "publish ex [expanded_row] = [assign_alias ex expanded_row]"
  by (simp add: publish_def dedup_def expanded_row_def)

lemma example_candidate: "str_remove chihou kyushu_chihou_boueikyoku = kyushu_boueikyoku"
  by (simp add: chihou_def kyushu_chihou_boueikyoku_def kyushu_boueikyoku_def)

theorem alias_only_when_validated_witness:
  "assign_alias knows_short expanded_row \<in> set (publish knows_short [expanded_row])
   \<and> bureau_alias (assign_alias knows_short expanded_row) = kyushu_boueikyoku
   \<and> assign_alias knows_both expanded_row \<in> set (publish knows_both [expanded_row])
   \<and> bureau_alias (assign_alias knows_both expanded_row) = []
   \<and> assign_alias knows_none expanded_row \<in> set (publish knows_none [expanded_row])
   \<and> bureau_alias (assign_alias knows_none expanded_row) = []"
proof -
  have m: "assign_alias ex expanded_row \<in> set (publish ex [expanded_row])" for ex
    by (simp add: example_publish)
  have b: "bureau expanded_row = kyushu_chihou_boueikyoku" "expanded_from expanded_row \<noteq> []"
    by (simp_all add: expanded_row_def)
  have c: "str_contains chihou kyushu_chihou_boueikyoku"
    by (simp add: chihou_def kyushu_chihou_boueikyoku_def)
  have d: "kyushu_boueikyoku \<noteq> kyushu_chihou_boueikyoku"
    by (simp add: kyushu_chihou_boueikyoku_def kyushu_boueikyoku_def)
  have "bureau_alias (assign_alias knows_short expanded_row) = kyushu_boueikyoku"
    using alias_only_when_validated [OF m, of knows_short] b c d
    by (simp add: example_candidate knows_short_def)
  moreover have "bureau_alias (assign_alias knows_both expanded_row) = []"
    using alias_only_when_validated [OF m, of knows_both] b c d
    by (simp add: example_candidate knows_both_def)
  moreover have "bureau_alias (assign_alias knows_none expanded_row) = []"
    using alias_only_when_validated [OF m, of knows_none] b c d
    by (simp add: example_candidate knows_none_def)
  ultimately show ?thesis using m by simp
qed

section \<open>The scan never raises\<close>

lemma kanji_to_int_total: "\<exists>n. kanji_to_int s = Inr n"
proof (cases s)
  case Nil
  then show ?thesis by (simp add: kanji_to_int_def split: option.splits)
next
  case (Cons c cs)
  then show ?thesis
    by (auto simp: kanji_to_int_def split: option.splits list.splits)
qed

lemma ordinals_total: "\<exists>ks. ordinals js = Inr ks"
  by (induction js) (auto split: option.splits)

lemma expand_item_total: "\<exists>xs. expand_item item = Inr xs"
proof (cases "range_match (strip item)")
  case None
  then show ?thesis by (simp add: expand_item_def)
next
  case (Some g)
  obtain g1 g2 where g: "g = (g1, g2)" by (cases g)
  obtain a where a: "kanji_to_int g1 = Inr a" using kanji_to_int_total by blast
  obtain b where b: "kanji_to_int g2 = Inr b" using kanji_to_int_total by blast
  show ?thesis using Some g a b ordinals_total by (simp add: expand_item_def)
qed

lemma expand_items_total: "\<exists>xs. expand_items items = Inr xs"
proof (induction items)
  case Nil
  show ?case by simp
next
  case (Cons item items)
  obtain xs where "expand_item item = Inr xs" using expand_item_total by blast
  with Cons show ?case by auto
qed

lemma expand_angle_content_total: "\<exists>pfxs. expand_angle_content text = Inr pfxs"
  by (simp add: expand_angle_content_def expand_items_total)

lemma classify_total: "\<exists>st'. classify st norm nia = Inr st'"
proof (cases "if prev_bureau_base st \<noteq> [] then angle_match norm else None")
  case None
  then show ?thesis by (simp add: classify_def)
next
  case (Some content)
  obtain pfxs where "expand_angle_content content = Inr pfxs"
    using expand_angle_content_total by blast
  with Some show ?thesis by (simp add: classify_def)
qed

lemma join_line_total: "\<exists>st'. join_line st raw_line = Inr st'"
  by (cases "current st") (auto simp: join_line_def)

lemma join_lines_total: "\<exists>st'. join_lines st raw_lines = Inr st'"
proof (induction raw_lines arbitrary: st)
  case Nil
  show ?case by simp
next
  case (Cons l ls)
  obtain st1 where "join_line st l = Inr st1" using join_line_total by blast
  with Cons show ?case by simp
qed

lemma join_continuation_lines_total: "\<exists>bs. join_continuation_lines raw_text = Inr bs"
proof -
  obtain st where
    "join_lines \<lparr>blocks = [], current = None, open_brackets = 0\<rparr> (split_on 10 raw_text) = Inr st"
    using join_lines_total by blast
  then show ?thesis by (simp add: join_continuation_lines_def)
qed

lemma lookahead_total: "\<exists>next_norm. lookahead later next_page = Inr next_norm"
proof (cases next_page)
  case None
  then show ?thesis by (simp add: lookahead_def)
next
  case (Some page)
  obtain bs where "join_continuation_lines page = Inr bs"
    using join_continuation_lines_total by blast
  with Some show ?thesis by (simp add: lookahead_def)
qed

lemma parse_blocks_total: "\<exists>st'. parse_blocks st bs next_page = Inr st'"
proof (induction bs arbitrary: st)
  case Nil
  show ?case by simp
next
  case (Cons b bs)
  obtain nn where n: "lookahead bs next_page = Inr nn" using lookahead_total by blast
  obtain st1 where c: "classify st (normalize_line b) (is_angle nn) = Inr st1"
    using classify_total by blast
  show ?case using Cons n c by simp
qed

lemma parse_pages_total: "\<exists>st'. parse_pages st pages = Inr st'"
proof (induction pages arbitrary: st)
  case Nil
  show ?case by simp
next
  case (Cons p ps)
  obtain bs where j: "join_continuation_lines p = Inr bs"
    using join_continuation_lines_total by blast
  obtain st1 where b: "parse_blocks st bs (case ps of [] \<Rightarrow> None | q # _ \<Rightarrow> Some q) = Inr st1"
    using parse_blocks_total by blast
  show ?case using Cons j b by simp
qed

lemma parse_raw_pages_total: "\<exists>rs. parse_raw_pages raw_pages = Inr rs"
proof -
  obtain st where "parse_pages initial (merge_pages raw_pages) = Inr st"
    using parse_pages_total by blast
  then show ?thesis by (simp add: parse_raw_pages_def)
qed

lemma rule_of_cases:
  "rule_of st norm = Angle \<longleftrightarrow> angle_match norm \<noteq> None \<and> prev_bureau_base st \<noteq> []"
  "rule_of st norm = Bracket \<or> rule_of st norm = Bare \<or> rule_of st norm = Ignored \<longleftrightarrow>
     \<not> (angle_match norm \<noteq> None \<and> prev_bureau_base st \<noteq> [])
     \<and> ministry_header_match norm = None \<and> \<not> bare_ministry norm
     \<and> \<not> (case category_match norm of None \<Rightarrow> False
            | Some cat_text \<Rightarrow> ends_in CATEGORY_ENDS cat_text)"
  "rule_of st norm = Bracket \<Longrightarrow> bracket_match norm \<noteq> None"
  "rule_of st norm = Bare \<Longrightarrow> bracket_match norm = None \<and> bare_bureau norm"
  "rule_of st norm = Ignored \<Longrightarrow> bracket_match norm = None \<and> \<not> bare_bureau norm"
  by (cases "bracket_match norm"; auto simp: rule_of_def split: if_splits)+

lemma classify_not_angle:
  "rule_of st norm \<noteq> Angle \<Longrightarrow> classify st norm nia = Inr (classify_other st norm nia)"
  by (cases "angle_match norm") (auto simp: rule_of_cases(1) classify_def)

lemma classify_bureau_rules:
  assumes "rule_of st norm = Bracket \<or> rule_of st norm = Bare \<or> rule_of st norm = Ignored"
  shows "classify st norm nia
         = Inr (bureau_rules (st\<lparr>prev_bureau_base := [], prev_bureau_full := []\<rparr>) norm nia)"
proof -
  from assms have na: "rule_of st norm \<noteq> Angle" by auto
  from assms have h: "ministry_header_match norm = None" and m: "\<not> bare_ministry norm"
    and c: "\<not> (case category_match norm of None \<Rightarrow> False
                | Some cat_text \<Rightarrow> ends_in CATEGORY_ENDS cat_text)"
    using rule_of_cases(2) [of st norm] by blast+
  have "classify_other st norm nia
        = bureau_rules (st\<lparr>prev_bureau_base := [], prev_bureau_full := []\<rparr>) norm nia"
    using h m c by (cases "category_match norm") (simp_all add: classify_other_def Let_def)
  with classify_not_angle [OF na] show ?thesis by simp
qed

lemma ignored_block:
  assumes "rule_of st norm = Ignored"
  shows "classify st norm nia = Inr (st\<lparr>prev_bureau_base := [], prev_bureau_full := []\<rparr>)"
proof -
  from assms have "bracket_match norm = None" "\<not> bare_bureau norm"
    using rule_of_cases(5) by blast+
  then show ?thesis
    using classify_bureau_rules [of st norm nia] assms
    by (simp add: bureau_rules_def bare_rule_def)
qed

text \<open>
  Claim C8. For every list of raw pages the scan returns rows and the engine returns
  records: no branch of the model that stands for a raised exception (a missing key, an
  index out of range, a concatenation with \<^verbatim>\<open>None\<close>) is ever taken, and every function of
  the model is total. A block that no rule recognizes leaves the state as it is, except
  that the pending bureau is cleared: no row, no change of ministry or category.
\<close>

theorem scan_never_raises:
  "(\<exists>rs. parse_raw_pages raw_pages = Inr rs)
   \<and> (\<exists>out. recover raw_pages ex = Inr out)
   \<and> (\<exists>rs. parse_pdf raw = Inr rs)
   \<and> (rule_of st norm = Ignored \<longrightarrow>
        classify st norm nia = Inr (st\<lparr>prev_bureau_base := [], prev_bureau_full := []\<rparr>))"
proof -
  obtain rs where "parse_raw_pages raw_pages = Inr rs"
    using parse_raw_pages_total by blast
  then have "(\<exists>rs. parse_raw_pages raw_pages = Inr rs) \<and> (\<exists>out. recover raw_pages ex = Inr out)"
    by (simp add: recover_def)
  moreover have "\<exists>rs. parse_pdf raw = Inr rs"
    by (simp add: parse_pdf_def parse_raw_pages_total)
  ultimately show ?thesis using ignored_block by blast
qed

theorem scan_never_raises_witness:
  "rule_of initial [0x61, 0x62] = Ignored
   \<and> classify initial [0x61, 0x62] False = Inr initial"
proof -
  have r: "rule_of initial [0x61, 0x62] = Ignored"
    by (simp add: rule_of_def initial_def angle_match_def ministry_header_match_def chomp_def
          header_marker_def isdecimal_def decimal_zeros_def bare_ministry_def dots_then_def
          category_match_def bracket_match_def bare_bureau_def ends_in_def BARE_ENDS_def
          strip_count_def count_digit_def strip_def isspace_def)
  have "classify initial [0x61, 0x62] False
        = Inr (initial\<lparr>prev_bureau_base := [], prev_bureau_full := []\<rparr>)"
    using scan_never_raises [of "[]" "\<lambda>n. False" "[]" initial "[0x61, 0x62]" False] r by blast
  then show ?thesis using r by (simp add: initial_def)
qed

section \<open>The two bureau rules and the sibling carry-over\<close>

lemma new_row_same:
  "current_ministry st1 = current_ministry st \<Longrightarrow> current_category st1 = current_category st
   \<Longrightarrow> new_row st1 b s e = new_row st b s e"
  by (simp add: new_row_def)

lemma count_suffix_check_cases:
  "count_suffix_check st raw nia =
     (if carry_fires st raw nia
      then st\<lparr>rows := rows st @ carried_rows st raw, last_count_str := []\<rparr>
      else if expansion_candidate raw
      then st\<lparr>prev_bureau_base := strip_count raw, prev_bureau_full := raw\<rparr>
      else st)"
  by (simp add: count_suffix_check_def carry_fires_def expansion_candidate_def cur_count_def
        carried_rows_def Let_def)

lemma count_suffix_check_context:
  "current_ministry (count_suffix_check st raw nia) = current_ministry st"
  "current_category (count_suffix_check st raw nia) = current_category st"
  by (simp_all add: count_suffix_check_cases)

lemma bureau_line:
  assumes "rule_of st norm = Bracket \<or> rule_of st norm = Bare"
  shows "classify st norm nia =
     Inr (let st1 = count_suffix_check (st\<lparr>prev_bureau_base := [], prev_bureau_full := []\<rparr>)
                      (line_name norm) nia
          in st1\<lparr>rows := rows st1 @ own_rows st norm\<rparr>)"
proof -
  let ?st0 = "st\<lparr>prev_bureau_base := [], prev_bureau_full := []\<rparr>"
  have c: "classify st norm nia = Inr (bureau_rules ?st0 norm nia)"
    using assms classify_bureau_rules by blast
  have n: "new_row (count_suffix_check ?st0 raw nia) b s e = new_row st b s e" for raw b s e
    by (rule new_row_same) (simp_all add: count_suffix_check_context)
  have n2: "new_row (count_suffix_check ?st0 raw nia\<lparr>rows := x\<rparr>) b s e = new_row st b s e"
    for raw b s e x
    by (rule new_row_same) (simp_all add: count_suffix_check_context)
  show ?thesis
  proof (cases "bracket_match norm")
    case None
    with assms have b: "bare_bureau norm"
      using rule_of_cases(3) [of st norm] rule_of_cases(4) [of st norm] by auto
    then have l: "literal_bound norm"
      using None by (simp add: literal_bound_def bare_bureau_def)
    show ?thesis
      using None b l
      by (simp add: c bureau_rules_def bare_rule_def own_rows_def line_name_def
            line_sections_def n Let_def)
  next
    case (Some g)
    obtain g1 g2 g3 where g: "g = (g1, g2, g3)" by (cases g)
    show ?thesis
      using Some g
      by (simp add: c bureau_rules_def bracket_rule_def own_rows_def line_name_def
            line_sections_def literal_bound_def n n2 Let_def)
  qed
qed

lemma bureau_line_state:
  assumes "rule_of st norm = Bracket \<or> rule_of st norm = Bare"
  shows "classify st norm nia =
     Inr (if carry_fires st (line_name norm) nia
          then st\<lparr>prev_bureau_base := [], prev_bureau_full := [], last_count_str := [],
                  rows := rows st @ carried_rows st (line_name norm) @ own_rows st norm\<rparr>
          else if expansion_candidate (line_name norm)
          then st\<lparr>prev_bureau_base := strip_count (line_name norm),
                  prev_bureau_full := line_name norm,
                  rows := rows st @ own_rows st norm\<rparr>
          else st\<lparr>prev_bureau_base := [], prev_bureau_full := [],
                  rows := rows st @ own_rows st norm\<rparr>)"
proof -
  let ?st0 = "st\<lparr>prev_bureau_base := [], prev_bureau_full := []\<rparr>"
  have f: "carry_fires ?st0 raw nia = carry_fires st raw nia" for raw
    by (simp add: carry_fires_def)
  have r: "carried_rows ?st0 raw = carried_rows st raw" for raw
    by (simp add: carried_rows_def new_row_def)
  show ?thesis
    by (simp add: bureau_line [OF assms] count_suffix_check_cases f r Let_def)
qed

lemma own_rows_plain: "r \<in> set (own_rows st norm) \<Longrightarrow> expanded_from r = []"
  by (auto simp: own_rows_def new_row_def split: if_splits)

lemma context_rule:
  assumes "rule_of st norm = Header \<or> rule_of st norm = Ministry \<or> rule_of st norm = Category"
  shows "\<exists>st'. classify st norm nia = Inr st' \<and> rows st' = rows st
           \<and> last_count_str st' = last_count_str st"
proof -
  from assms have na: "rule_of st norm \<noteq> Angle" by auto
  have "rows (classify_other st norm nia) = rows st
        \<and> last_count_str (classify_other st norm nia) = last_count_str st"
    using assms
    by (auto simp: rule_of_def classify_other_def Let_def split: if_splits option.splits)
  with classify_not_angle [OF na] show ?thesis by simp
qed

lemma carry_needs_count: "last_count_str st = [] \<Longrightarrow> \<not> carry_fires st raw nia"
  by (auto simp: carry_fires_def)

lemma no_reuse_step:
  assumes "last_count_str st = []" and "rule_of st norm \<noteq> Angle"
  shows "\<exists>st' new. classify st norm nia = Inr st' \<and> last_count_str st' = []
           \<and> rows st' = rows st @ new \<and> (\<forall>r \<in> set new. expanded_from r = [])"
proof -
  consider (ctx) "rule_of st norm = Header \<or> rule_of st norm = Ministry
                       \<or> rule_of st norm = Category"
    | (bur) "rule_of st norm = Bracket \<or> rule_of st norm = Bare"
    | (ign) "rule_of st norm = Ignored"
    using assms(2) by (cases "rule_of st norm") auto
  then show ?thesis
  proof cases
    case ctx
    from context_rule [OF ctx, of nia] obtain st' where
      "classify st norm nia = Inr st'" "rows st' = rows st" "last_count_str st' = last_count_str st"
      by blast
    with assms(1) have "classify st norm nia = Inr st' \<and> last_count_str st' = []
        \<and> rows st' = rows st @ [] \<and> (\<forall>r \<in> set []. expanded_from r = [])"
      by simp
    then show ?thesis by blast
  next
    case bur
    have nf: "\<not> carry_fires st (line_name norm) nia"
      using assms(1) by (rule carry_needs_count)
    let ?st' = "if expansion_candidate (line_name norm)
                then st\<lparr>prev_bureau_base := strip_count (line_name norm),
                        prev_bureau_full := line_name norm,
                        rows := rows st @ own_rows st norm\<rparr>
                else st\<lparr>prev_bureau_base := [], prev_bureau_full := [],
                        rows := rows st @ own_rows st norm\<rparr>"
    have "classify st norm nia = Inr ?st'"
      using bureau_line_state [OF bur, of nia] nf by simp
    moreover have "last_count_str ?st' = []" using assms(1) by simp
    moreover have "rows ?st' = rows st @ own_rows st norm" by simp
    ultimately show ?thesis using own_rows_plain by blast
  next
    case ign
    from ignored_block [OF ign, of nia] assms(1)
    have "classify st norm nia = Inr (st\<lparr>prev_bureau_base := [], prev_bureau_full := []\<rparr>)
        \<and> last_count_str (st\<lparr>prev_bureau_base := [], prev_bureau_full := []\<rparr>) = []
        \<and> rows (st\<lparr>prev_bureau_base := [], prev_bureau_full := []\<rparr>) = rows st @ []
        \<and> (\<forall>r \<in> set []. expanded_from r = [])"
      by simp
    then show ?thesis by blast
  qed
qed

lemma no_reuse_run:
  assumes "last_count_str st = []"
    and "\<forall>b \<in> set bs. angle_match (normalize_line b) = None"
  shows "\<exists>st' new. parse_blocks st bs next_page = Inr st' \<and> last_count_str st' = []
           \<and> rows st' = rows st @ new \<and> (\<forall>r \<in> set new. expanded_from r = [])"
  using assms
proof (induction bs arbitrary: st)
  case Nil
  have "parse_blocks st [] next_page = Inr st \<and> last_count_str st = []
      \<and> rows st = rows st @ [] \<and> (\<forall>r \<in> set []. expanded_from r = [])"
    using Nil.prems(1) by simp
  then show ?case by blast
next
  case (Cons b bs)
  from Cons.prems(2) have rest: "\<forall>b \<in> set bs. angle_match (normalize_line b) = None"
    and here: "angle_match (normalize_line b) = None"
    by simp_all
  show ?case
  proof (cases "normalize_line b = []")
    case True
    from Cons.IH [OF Cons.prems(1) rest] True show ?thesis by simp
  next
    case False
    obtain nn where n: "lookahead bs next_page = Inr nn" using lookahead_total by blast
    have na: "rule_of st (normalize_line b) \<noteq> Angle"
      using here by (simp add: rule_of_cases(1))
    from no_reuse_step [OF Cons.prems(1) na, of "is_angle nn"] obtain st1 new1 where
      c: "classify st (normalize_line b) (is_angle nn) = Inr st1"
      and l: "last_count_str st1 = []" and r1: "rows st1 = rows st @ new1"
      and e1: "\<forall>r \<in> set new1. expanded_from r = []"
      by blast
    from Cons.IH [OF l rest] obtain st' new2 where
      p: "parse_blocks st1 bs next_page = Inr st'" and l': "last_count_str st' = []"
      and r2: "rows st' = rows st1 @ new2" and e2: "\<forall>r \<in> set new2. expanded_from r = []"
      by blast
    have "parse_blocks st (b # bs) next_page = Inr st'"
      using False n c p by simp
    moreover have "rows st' = rows st @ (new1 @ new2)" using r1 r2 by simp
    moreover have "\<forall>r \<in> set (new1 @ new2). expanded_from r = []" using e1 e2 by auto
    ultimately show ?thesis using l' by blast
  qed
qed

lemma kanku_line:
  "angle_match kanku_keisatsukyoku_6 = None"
  "ministry_header_match kanku_keisatsukyoku_6 = None"
  "\<not> bare_ministry kanku_keisatsukyoku_6"
  "category_match kanku_keisatsukyoku_6 = None"
  "bracket_match kanku_keisatsukyoku_6 = None"
  "strip_count kanku_keisatsukyoku_6 = kanku_keisatsukyoku"
  "count_search kanku_keisatsukyoku_6 = Some [0xFF16]"
  "ends_in ORG_ENDS kanku_keisatsukyoku"
  "kanku_keisatsukyoku \<noteq> kanku_keisatsukyoku_6"
  "length kanku_keisatsukyoku_6 = 6"
  "0xFF08 \<notin> set kanku_keisatsukyoku_6" "0x3001 \<notin> set kanku_keisatsukyoku_6"
  by (simp_all add: kanku_keisatsukyoku_6_def kanku_keisatsukyoku_def angle_match_def
        ministry_header_match_def chomp_def header_marker_def isdecimal_def decimal_zeros_def
        bare_ministry_def dots_then_def MINISTRY_ENDS_def category_match_def
        category_letter_def bracket_match_def strip_count_def count_digit_def strip_def
        isspace_def count_search_def ends_in_def ORG_ENDS_def)

lemma kanku_rule: "rule_of st kanku_keisatsukyoku_6 = Bare"
  by (simp add: rule_of_def kanku_line bare_bureau_def)

lemma kanku_name:
  "line_name kanku_keisatsukyoku_6 = kanku_keisatsukyoku_6"
  "line_sections kanku_keisatsukyoku_6 = []"
  "literal_bound kanku_keisatsukyoku_6"
  "expansion_candidate kanku_keisatsukyoku_6"
  "cur_count kanku_keisatsukyoku_6 = [0xFF16]"
  by (simp_all add: line_name_def line_sections_def literal_bound_def expansion_candidate_def
        cur_count_def kanku_line)

text \<open>
  Claim C1. Take a block that one of the two bureau rules classifies and whose name ends
  in a count behind an organization suffix. If the count equals \<open>last_count_str\<close>, the
  next block is no angle-bracket line and \<open>last_prefixes\<close> is not empty, the classifier
  appends one row per cached prefix (bureau = prefix followed by the name without its
  count, empty section, \<open>expanded_from\<close> = the name), then the rows of the line itself,
  and sets \<open>last_count_str\<close> to the empty string. If \<open>last_count_str\<close> is empty, such a
  line appends no row from a cached prefix and stores its name as the pending bureau.
  And \<open>last_count_str\<close> stays empty until the angle-bracket rule fires again: any block
  that this rule does not take leaves it empty and appends only rows with an empty
  \<open>expanded_from\<close>, and so does every run of blocks without an angle-bracket line.
\<close>

theorem sibling_carry_once:
  "((rule_of st norm = Bracket \<or> rule_of st norm = Bare)
      \<and> expansion_candidate (line_name norm) \<longrightarrow>
      (cur_count (line_name norm) \<noteq> [] \<and> cur_count (line_name norm) = last_count_str st
         \<and> \<not> nia \<and> last_prefixes st \<noteq> [] \<longrightarrow>
         (\<exists>st'. classify st norm nia = Inr st' \<and> last_count_str st' = []
            \<and> rows st' = rows st
                 @ map (\<lambda>pfx. \<lparr>ministry = current_ministry st, category = current_category st,
                               bureau = pfx @ strip_count (line_name norm), section_name = [],
                               expanded_from = line_name norm\<rparr>) (last_prefixes st)
                 @ own_rows st norm))
      \<and> (last_count_str st = [] \<longrightarrow>
         (\<exists>st'. classify st norm nia = Inr st' \<and> last_count_str st' = []
            \<and> rows st' = rows st @ own_rows st norm
            \<and> prev_bureau_base st' = strip_count (line_name norm)
            \<and> prev_bureau_full st' = line_name norm)))
   \<and> (\<forall>r \<in> set (own_rows st norm). expanded_from r = [])
   \<and> (last_count_str st = [] \<and> rule_of st norm \<noteq> Angle \<longrightarrow>
        (\<exists>st' new. classify st norm nia = Inr st' \<and> last_count_str st' = []
           \<and> rows st' = rows st @ new \<and> (\<forall>r \<in> set new. expanded_from r = [])))
   \<and> (last_count_str st = [] \<and> (\<forall>b \<in> set bs. angle_match (normalize_line b) = None) \<longrightarrow>
        (\<exists>st' new. parse_blocks st bs next_page = Inr st' \<and> last_count_str st' = []
           \<and> rows st' = rows st @ new \<and> (\<forall>r \<in> set new. expanded_from r = [])))"
proof -
  have a: "\<exists>st'. classify st norm nia = Inr st' \<and> last_count_str st' = []
            \<and> rows st' = rows st
                 @ map (\<lambda>pfx. \<lparr>ministry = current_ministry st, category = current_category st,
                               bureau = pfx @ strip_count (line_name norm), section_name = [],
                               expanded_from = line_name norm\<rparr>) (last_prefixes st)
                 @ own_rows st norm"
    if r: "rule_of st norm = Bracket \<or> rule_of st norm = Bare"
      and c: "expansion_candidate (line_name norm)"
      and f: "cur_count (line_name norm) \<noteq> []" "cur_count (line_name norm) = last_count_str st"
        "\<not> nia" "last_prefixes st \<noteq> []"
  proof -
    have "carry_fires st (line_name norm) nia" using c f by (simp add: carry_fires_def)
    then show ?thesis
      using bureau_line_state [OF r, of nia] by (simp add: carried_rows_def new_row_def)
  qed
  have b: "\<exists>st'. classify st norm nia = Inr st' \<and> last_count_str st' = []
            \<and> rows st' = rows st @ own_rows st norm
            \<and> prev_bureau_base st' = strip_count (line_name norm)
            \<and> prev_bureau_full st' = line_name norm"
    if r: "rule_of st norm = Bracket \<or> rule_of st norm = Bare"
      and c: "expansion_candidate (line_name norm)" and e: "last_count_str st = []"
    using bureau_line_state [OF r, of nia] carry_needs_count [OF e] c e by simp
  show ?thesis
    using a b own_rows_plain [of _ st norm] no_reuse_step [of st norm nia]
      no_reuse_run [of st bs next_page]
    by blast
qed

lemma carry_state_fields:
  "rows carry_state = []" "last_prefixes carry_state = [touhoku]"
  "last_count_str carry_state = [0xFF16]" "current_category carry_state = []"
  "current_ministry carry_state = [0x8B66, 0x5BDF, 0x5E81]"
  by (simp_all add: carry_state_def)

lemma kanku_normal: "normalize_line kanku_keisatsukyoku_6 = kanku_keisatsukyoku_6"
  by (simp add: kanku_keisatsukyoku_6_def normalize_line_def strip_def isspace_def)

lemma kanku_own_rows:
  "own_rows st kanku_keisatsukyoku_6
   = [\<lparr>ministry = current_ministry st, category = current_category st,
       bureau = kanku_keisatsukyoku_6, section_name = [], expanded_from = []\<rparr>]"
  by (simp add: own_rows_def kanku_name new_row_def)

theorem sibling_carry_once_witness:
  "rule_of carry_state kanku_keisatsukyoku_6 = Bare
   \<and> expansion_candidate (line_name kanku_keisatsukyoku_6)
   \<and> cur_count (line_name kanku_keisatsukyoku_6) = last_count_str carry_state
   \<and> last_prefixes carry_state \<noteq> []
   \<and> last_count_str (projr (classify carry_state kanku_keisatsukyoku_6 False)) = []
   \<and> rows (projr (classify carry_state kanku_keisatsukyoku_6 False))
       = [\<lparr>ministry = [0x8B66, 0x5BDF, 0x5E81], category = [],
           bureau = touhoku @ kanku_keisatsukyoku, section_name = [],
           expanded_from = kanku_keisatsukyoku_6\<rparr>,
          \<lparr>ministry = [0x8B66, 0x5BDF, 0x5E81], category = [],
           bureau = kanku_keisatsukyoku_6, section_name = [], expanded_from = []\<rparr>]
   \<and> rows (projr (classify (carry_state\<lparr>last_count_str := []\<rparr>) kanku_keisatsukyoku_6 False))
       = [\<lparr>ministry = [0x8B66, 0x5BDF, 0x5E81], category = [],
           bureau = kanku_keisatsukyoku_6, section_name = [], expanded_from = []\<rparr>]
   \<and> prev_bureau_base
        (projr (classify (carry_state\<lparr>last_count_str := []\<rparr>) kanku_keisatsukyoku_6 False))
       = kanku_keisatsukyoku
   \<and> last_count_str
        (projr (parse_blocks (carry_state\<lparr>last_count_str := []\<rparr>)
                  [kanku_keisatsukyoku_6, kanku_keisatsukyoku_6] None)) = []"
proof -
  let ?n = kanku_keisatsukyoku_6
  let ?s2 = "carry_state\<lparr>last_count_str := []\<rparr>"
  have r: "rule_of st ?n = Bracket \<or> rule_of st ?n = Bare" for st
    by (simp add: kanku_rule)
  have c: "expansion_candidate (line_name ?n)" by (simp add: kanku_name)
  have f: "cur_count (line_name ?n) \<noteq> []" "cur_count (line_name ?n) = last_count_str carry_state"
    "last_prefixes carry_state \<noteq> []"
    by (simp_all add: kanku_name carry_state_fields)
  have e: "last_count_str ?s2 = []" by simp
  have g: "\<forall>b \<in> set [?n, ?n]. angle_match (normalize_line b) = None"
    by (simp add: kanku_normal kanku_line)
  from sibling_carry_once [of carry_state ?n False "[]" None] r c f
  obtain s1 where s1: "classify carry_state ?n False = Inr s1" "last_count_str s1 = []"
    "rows s1 = rows carry_state
       @ map (\<lambda>pfx. \<lparr>ministry = current_ministry carry_state,
                     category = current_category carry_state,
                     bureau = pfx @ strip_count (line_name ?n), section_name = [],
                     expanded_from = line_name ?n\<rparr>) (last_prefixes carry_state)
       @ own_rows carry_state ?n"
    by blast
  from sibling_carry_once [of ?s2 ?n False "[?n, ?n]" None] r c e g
  obtain s3 s4 new where s3: "classify ?s2 ?n False = Inr s3"
    "rows s3 = rows ?s2 @ own_rows ?s2 ?n" "prev_bureau_base s3 = strip_count (line_name ?n)"
    and s4: "parse_blocks ?s2 [?n, ?n] None = Inr s4" "last_count_str s4 = []"
    by blast
  show ?thesis
    using s1 s3 s4 c f
    by (simp add: kanku_rule kanku_name kanku_line kanku_own_rows carry_state_fields)
qed

text \<open>
  Claim C9. Whenever one of the two bureau rules classifies a block and the rule's
  length bound on the name holds, the row of the name itself (bureau = the name with its
  count still attached, empty section, empty \<open>expanded_from\<close>) is appended, behind the
  rows of the cached prefixes if the carry-over fires and before the section rows;
  whether the count-suffix check reuses the prefixes, stores the name as pending or
  does nothing makes no difference. For the rule without brackets the bound is part of
  the rule's own test, so that rule always appends the row.
\<close>

theorem literal_row_kept:
  "((rule_of st norm = Bracket \<or> rule_of st norm = Bare) \<and> literal_bound norm \<longrightarrow>
      (\<exists>st'. classify st norm nia = Inr st'
         \<and> rows st' = rows st
              @ (if carry_fires st (line_name norm) nia
                 then map (\<lambda>pfx. \<lparr>ministry = current_ministry st,
                                   category = current_category st,
                                   bureau = pfx @ strip_count (line_name norm),
                                   section_name = [], expanded_from = line_name norm\<rparr>)
                        (last_prefixes st)
                 else [])
              @ [\<lparr>ministry = current_ministry st, category = current_category st,
                  bureau = line_name norm, section_name = [], expanded_from = []\<rparr>]
              @ map (\<lambda>sec. \<lparr>ministry = current_ministry st, category = current_category st,
                            bureau = line_name norm, section_name = sec,
                            expanded_from = []\<rparr>) (line_sections norm)))
   \<and> (rule_of st norm = Bare \<longrightarrow> literal_bound norm \<and> line_name norm = norm)"
proof -
  have a: "\<exists>st'. classify st norm nia = Inr st'
         \<and> rows st' = rows st
              @ (if carry_fires st (line_name norm) nia
                 then map (\<lambda>pfx. \<lparr>ministry = current_ministry st,
                                   category = current_category st,
                                   bureau = pfx @ strip_count (line_name norm),
                                   section_name = [], expanded_from = line_name norm\<rparr>)
                        (last_prefixes st)
                 else [])
              @ [\<lparr>ministry = current_ministry st, category = current_category st,
                  bureau = line_name norm, section_name = [], expanded_from = []\<rparr>]
              @ map (\<lambda>sec. \<lparr>ministry = current_ministry st, category = current_category st,
                            bureau = line_name norm, section_name = sec,
                            expanded_from = []\<rparr>) (line_sections norm)"
    if r: "rule_of st norm = Bracket \<or> rule_of st norm = Bare" and l: "literal_bound norm"
    using bureau_line_state [OF r, of nia] l
    by (simp add: own_rows_def carried_rows_def new_row_def)
  have b: "literal_bound norm \<and> line_name norm = norm" if "rule_of st norm = Bare"
    using rule_of_cases(4) [OF that]
    by (simp add: literal_bound_def line_name_def bare_bureau_def)
  from a b show ?thesis by blast
qed

theorem literal_row_kept_witness:
  "rule_of carry_state kanku_keisatsukyoku_6 = Bare
   \<and> literal_bound kanku_keisatsukyoku_6
   \<and> carry_fires carry_state (line_name kanku_keisatsukyoku_6) False
   \<and> rows (projr (classify carry_state kanku_keisatsukyoku_6 False))
       = [\<lparr>ministry = [0x8B66, 0x5BDF, 0x5E81], category = [],
           bureau = touhoku @ kanku_keisatsukyoku, section_name = [],
           expanded_from = kanku_keisatsukyoku_6\<rparr>,
          \<lparr>ministry = [0x8B66, 0x5BDF, 0x5E81], category = [],
           bureau = kanku_keisatsukyoku_6, section_name = [], expanded_from = []\<rparr>]"
proof -
  let ?n = kanku_keisatsukyoku_6
  have r: "rule_of carry_state ?n = Bracket \<or> rule_of carry_state ?n = Bare"
    by (simp add: kanku_rule)
  have l: "literal_bound ?n" by (simp add: kanku_name)
  have f: "carry_fires carry_state (line_name ?n) False"
    by (simp add: carry_fires_def kanku_name carry_state_fields)
  from literal_row_kept [of carry_state ?n False] r l
  obtain s1 where "classify carry_state ?n False = Inr s1"
    "rows s1 = rows carry_state
       @ (if carry_fires carry_state (line_name ?n) False
          then map (\<lambda>pfx. \<lparr>ministry = current_ministry carry_state,
                            category = current_category carry_state,
                            bureau = pfx @ strip_count (line_name ?n),
                            section_name = [], expanded_from = line_name ?n\<rparr>)
                 (last_prefixes carry_state)
          else [])
       @ [\<lparr>ministry = current_ministry carry_state, category = current_category carry_state,
           bureau = line_name ?n, section_name = [], expanded_from = []\<rparr>]
       @ map (\<lambda>sec. \<lparr>ministry = current_ministry carry_state,
                     category = current_category carry_state,
                     bureau = line_name ?n, section_name = sec,
                     expanded_from = []\<rparr>) (line_sections ?n)"
    by blast
  then show ?thesis
    using f l by (simp add: kanku_rule kanku_name kanku_line carry_state_fields)
qed

section \<open>The engine is a function of the pages and of the lookups it makes\<close>

lemmas classify_unfold =
  strip_def isspace_def isdecimal_def decimal_zeros_def chomp_def ends_in_def
  count_digit_def count_search_def strip_count_def angle_match_def dots_then_def
  MINISTRY_ENDS_def header_marker_def ministry_header_match_def this_ministry_def
  numeral_start_def fullwidth_1_9_def bare_ministry_def category_letter_def
  category_match_def CATEGORY_ENDS_def bracket_match_def BARE_ENDS_def ORG_ENDS_def
  new_row_def count_suffix_check_def bare_bureau_def bare_rule_def bureau_rules_def
  classify_other_def classify_def Let_def

lemma alias_page_blocks:
  "join_continuation_lines alias_page = Inr [boueishou, chihou_boueikyoku_8, kyushu_template]"
  by (simp add: alias_page_def boueishou_def chihou_boueikyoku_8_def kyushu_template_def
        join_continuation_lines_def join_line_def finish_blocks_def strip_def isspace_def
        page_number_def chomp_def has_indent_def FORCE_NEW_def run_then_space_def
        fullwidth_1_9_def isdecimal_def decimal_zeros_def bracket_excess_def)

lemma alias_page_merge: "merge_pages [alias_page] = [alias_page]"
  by (simp add: merge_pages_def)

lemma alias_page_normal:
  "normalize_line boueishou = boueishou"
  "normalize_line chihou_boueikyoku_8 = chihou_boueikyoku_8"
  "normalize_line kyushu_template = kyushu_template"
  "boueishou \<noteq> []" "chihou_boueikyoku_8 \<noteq> []" "kyushu_template \<noteq> []"
  "is_angle kyushu_template" "\<not> is_angle chihou_boueikyoku_8" "\<not> is_angle []"
  by (simp_all add: boueishou_def chihou_boueikyoku_8_def kyushu_template_def
        normalize_line_def strip_def isspace_def is_angle_def)

lemma alias_page_step1:
  "classify initial boueishou False
   = Inr \<lparr>rows = [], current_ministry = [0x9632, 0x885B, 0x7701], current_category = [],
          prev_bureau_base = [], prev_bureau_full = [], last_prefixes = [],
          last_count_str = []\<rparr>"
  by (simp add: initial_def boueishou_def classify_unfold)

lemma alias_page_step2:
  "classify \<lparr>rows = [], current_ministry = [0x9632, 0x885B, 0x7701], current_category = [],
             prev_bureau_base = [], prev_bureau_full = [], last_prefixes = [],
             last_count_str = []\<rparr> chihou_boueikyoku_8 True
   = Inr \<lparr>rows = [numbered_row], current_ministry = [0x9632, 0x885B, 0x7701],
          current_category = [],
          prev_bureau_base = [0x5730, 0x65B9, 0x9632, 0x885B, 0x5C40],
          prev_bureau_full = [0x5730, 0x65B9, 0x9632, 0x885B, 0x5C40, 0xFF18],
          last_prefixes = [], last_count_str = []\<rparr>"
  by (simp add: chihou_boueikyoku_8_def numbered_row_def classify_unfold)

lemma alias_page_step3:
  "classify \<lparr>rows = [numbered_row], current_ministry = [0x9632, 0x885B, 0x7701],
             current_category = [],
             prev_bureau_base = [0x5730, 0x65B9, 0x9632, 0x885B, 0x5C40],
             prev_bureau_full = [0x5730, 0x65B9, 0x9632, 0x885B, 0x5C40, 0xFF18],
             last_prefixes = [], last_count_str = []\<rparr> kyushu_template False
   = Inr \<lparr>rows = [numbered_row, expanded_row], current_ministry = [0x9632, 0x885B, 0x7701],
          current_category = [], prev_bureau_base = [], prev_bureau_full = [],
          last_prefixes = [[0x4E5D, 0x5DDE]], last_count_str = [0xFF18]\<rparr>"
  by (simp add: kyushu_template_def numbered_row_def expanded_row_def
        kyushu_chihou_boueikyoku_def classify_unfold expand_angle_content_def
        expand_item_def range_match_def)

lemma alias_page_rows: "parse_raw_pages [alias_page] = Inr [numbered_row, expanded_row]"
  by (simp add: parse_raw_pages_def alias_page_merge alias_page_blocks lookahead_def
        alias_page_normal alias_page_step1 alias_page_step2 alias_page_step3)

lemma alias_page_kept: "kept_rows [alias_page] = [numbered_row, expanded_row]"
  by (simp add: kept_rows_def alias_page_rows dedup_def key_of_def numbered_row_def
        expanded_row_def kyushu_chihou_boueikyoku_def)

lemma assign_alias_same_lookups:
  assumes "\<forall>n \<in> set (lookups ex r). ex n = ex' n"
  shows "assign_alias ex r = assign_alias ex' r"
proof (cases "expanded_from r \<noteq> [] \<and> str_contains chihou (bureau r)
              \<and> str_remove chihou (bureau r) \<noteq> bureau r")
  case False
  then show ?thesis by (auto simp: assign_alias_def Let_def)
next
  case True
  with assms have c: "ex (str_remove chihou (bureau r)) = ex' (str_remove chihou (bureau r))"
    by (simp add: lookups_def)
  show ?thesis
  proof (cases "ex (str_remove chihou (bureau r))")
    case False
    with c show ?thesis by (simp add: assign_alias_def Let_def)
  next
    case e: True
    with True assms have "ex (bureau r) = ex' (bureau r)"
      by (simp add: lookups_def)
    with c show ?thesis by (simp add: assign_alias_def Let_def)
  qed
qed

text \<open>
  Claim C10. The engine is a function: its records are determined by the pages and the
  lookup. Moreover two runs on the same pages with two lookups that answer alike for
  every name that the first run looks up (for a record from an expansion whose bureau
  contains the qualifier: the name without the qualifier, and the bureau name if the
  first lookup succeeded) give the same records, field for field and in the same order.
\<close>

theorem recover_deterministic:
  "(\<forall>r \<in> set (kept_rows raw_pages). \<forall>n \<in> set (lookups ex r). ex n = ex' n)
   \<longrightarrow> recover raw_pages ex = recover raw_pages ex'"
proof
  assume a: "\<forall>r \<in> set (kept_rows raw_pages). \<forall>n \<in> set (lookups ex r). ex n = ex' n"
  obtain rs where rs: "parse_raw_pages raw_pages = Inr rs"
    using parse_raw_pages_total by blast
  with a have "\<forall>r \<in> set (dedup rs). assign_alias ex r = assign_alias ex' r"
    using assign_alias_same_lookups by (simp add: kept_rows_def)
  then show "recover raw_pages ex = recover raw_pages ex'"
    using rs by (simp add: recover_def publish_def)
qed

theorem recover_deterministic_witness:
  "kept_rows [alias_page] = [numbered_row, expanded_row]
   \<and> lookups knows_short numbered_row = []
   \<and> lookups knows_short expanded_row = [kyushu_boueikyoku, kyushu_chihou_boueikyoku]
   \<and> knows_short_and_a kyushu_boueikyoku = knows_short kyushu_boueikyoku
   \<and> knows_short_and_a kyushu_chihou_boueikyoku = knows_short kyushu_chihou_boueikyoku
   \<and> knows_short_and_a [0x61] \<noteq> knows_short [0x61]
   \<and> recover [alias_page] knows_short = recover [alias_page] knows_short_and_a"
proof -
  have d: "kyushu_boueikyoku \<noteq> kyushu_chihou_boueikyoku" "kyushu_boueikyoku \<noteq> [0x61]"
    "kyushu_chihou_boueikyoku \<noteq> [0x61]"
    by (simp_all add: kyushu_chihou_boueikyoku_def kyushu_boueikyoku_def)
  have l1: "lookups knows_short numbered_row = []"
    by (simp add: lookups_def numbered_row_def)
  have c: "str_contains chihou kyushu_chihou_boueikyoku"
    by (simp add: chihou_def kyushu_chihou_boueikyoku_def)
  have l2: "lookups knows_short expanded_row = [kyushu_boueikyoku, kyushu_chihou_boueikyoku]"
    using c d by (simp add: lookups_def expanded_row_def example_candidate knows_short_def)
  have k: "knows_short_and_a kyushu_boueikyoku = knows_short kyushu_boueikyoku"
    "knows_short_and_a kyushu_chihou_boueikyoku = knows_short kyushu_chihou_boueikyoku"
    "knows_short_and_a [0x61] \<noteq> knows_short [0x61]"
    using d by (auto simp: knows_short_and_a_def knows_short_def)
  have "\<forall>r \<in> set (kept_rows [alias_page]). \<forall>n \<in> set (lookups knows_short r).
          knows_short n = knows_short_and_a n"
    using k by (simp add: alias_page_kept l1 l2)
  with recover_deterministic [of "[alias_page]" knows_short knows_short_and_a]
  have "recover [alias_page] knows_short = recover [alias_page] knows_short_and_a"
    by blast
  with alias_page_kept l1 l2 k show ?thesis by simp
qed

section \<open>Angle-bracket expansion\<close>
































end
